theory Spec2Isabelle
  imports
    Main
    "HOL-Library.Word"
    "HOL-Library.Char_ord"
    "HOL-Library.List_Lexorder"
    "HOL-Library.Product_Lexorder"
    "HOL-Library.Multiset"
begin

section \<open>ghunwatch: a shallow embedding of main.go\<close>

text \<open>
  The program lists the repositories an account watches, lets the user mark rows of a
  table and deletes the subscriptions of the marked rows. Everything lives in
  \<^verbatim>\<open>main.go\<close>. The embedding keeps the names of the source.

  Conventions:
  \<^item> a Go \<^verbatim>\<open>string\<close> is a byte sequence, here \<^typ>\<open>string\<close>; \<^verbatim>\<open><\<close> on Go strings is
    the bytewise lexicographic order, which is the order of \<^typ>\<open>string\<close> given by
    the byte order on \<^typ>\<open>char\<close> and the lexicographic order on lists;
  \<^item> a Go \<^verbatim>\<open>int\<close> is a 64-bit two's complement integer, here \<^typ>\<open>64 word\<close>;
  \<^item> a nil pointer is \<^const>\<open>None\<close>, and dereferencing it is the panic \<open>NilDeref\<close>;
  \<^item> an \<^verbatim>\<open>error\<close> is a value of the datatype \<open>error\<close>, a nil error is \<^const>\<open>None\<close>;
  \<^item> the GitHub client, the table widget, the spinner and the help line are libraries
    outside this repository: they are parameters of the model (records of functions), and
    every call to the remote service is written to an event log.
\<close>

subsection \<open>Errors and formatting\<close>

text \<open>
  \<^verbatim>\<open>errors.New(s)\<close> gives an error whose message is \<open>s\<close>; \<^verbatim>\<open>fmt.Errorf\<close> with a
  \<^verbatim>\<open>%w\<close> verb gives an error that holds the formatted message and the wrapped cause.
  Errors of the libraries are \<open>errorString\<close> values as well: only their message is
  observed.
\<close>

datatype error = errorString string | wrapError string error

fun Error :: "error \<Rightarrow> string" where
  "Error (errorString s) = s"
| "Error (wrapError msg e) = msg"

fun Unwrap :: "error \<Rightarrow> error option" where
  "Unwrap (errorString s) = None"
| "Unwrap (wrapError msg e) = Some e"

datatype panic = NilDeref | MakeSliceCap | TypeAssertion

type_synonym GoInt = "64 word"

definition digit :: "nat \<Rightarrow> char" where
  "digit n = ''0123456789'' ! n"

function itoa :: "nat \<Rightarrow> string" where
  "itoa n = (if n < 10 then [digit n] else itoa (n div 10) @ [digit (n mod 10)])"
  by pat_completeness auto
termination
  by (relation "measure (\<lambda>n. n)") auto

declare itoa.simps [simp del]

text \<open>The verb \<^verbatim>\<open>%d\<close> on an \<^verbatim>\<open>int\<close>: signed decimal.\<close>

definition fmt_d :: "GoInt \<Rightarrow> string" where
  "fmt_d i = (if sint i < 0 then ''-'' @ itoa (nat (- sint i)) else itoa (nat (sint i)))"

text \<open>The verb \<^verbatim>\<open>%v\<close> on an \<^verbatim>\<open>error\<close>: its message, or \<^verbatim>\<open><nil>\<close> for a nil error.\<close>

definition fmt_v :: "error option \<Rightarrow> string" where
  "fmt_v e = (case e of None \<Rightarrow> ''<nil>'' | Some x \<Rightarrow> Error x)"

definition newline :: string where
  "newline = [CHR 0x0A]"

subsection \<open>Data model\<close>

record sub =
  org :: string
  repo :: string

text \<open>The fields of the go-github types that the program reads.\<close>

record User =
  Login :: "string option"

record Repository =
  Owner :: "User option"
  Name :: "string option"

record ListOptions =
  Page :: GoInt
  PerPage :: GoInt

record Response =
  NextPage :: GoInt
  LastPage :: GoInt

type_synonym page = "Repository option list \<times> Response"

subsection \<open>The remote client and the event log\<close>

text \<open>
  The client is a pointer to a library object that talks to the remote service. The model
  is a pair of state transformers over a state \<open>'w\<close> of the world (the remote service
  and whatever else the library depends on): a call gets the world and returns its result
  and the world after the call.
\<close>

record 'w Client =
  ListWatched :: "'w \<Rightarrow> ListOptions \<Rightarrow> (error + page) \<times> 'w"
  DeleteRepositorySubscription :: "'w \<Rightarrow> string \<Rightarrow> string \<Rightarrow> error option \<times> 'w"

text \<open>
  The log holds one event for every call to the client, with the arguments and the
  result, and one for every call of \<open>getSubs\<close> by \<open>loadSubs\<close>.
\<close>

datatype event =
    ListWatchedCall ListOptions "error + page"
  | DeleteCall string string "error option"
  | GetSubsCall

type_synonym 'w st = "'w \<times> event list"

definition call_ListWatched ::
  "'w Client \<Rightarrow> ListOptions \<Rightarrow> 'w st \<Rightarrow> (error + page) \<times> 'w st" where
  "call_ListWatched c opts s =
     (case ListWatched c (fst s) opts of
        (r, w') \<Rightarrow> (r, (w', snd s @ [ListWatchedCall opts r])))"

definition call_Delete ::
  "'w Client \<Rightarrow> string \<Rightarrow> string \<Rightarrow> 'w st \<Rightarrow> error option \<times> 'w st" where
  "call_Delete c ow rp s =
     (case DeleteRepositorySubscription c (fst s) ow rp of
        (r, w') \<Rightarrow> (r, (w', snd s @ [DeleteCall ow rp r])))"

subsection \<open>getSubs\<close>

text \<open>
  \<^verbatim>\<open>make([]sub, 0, n)\<close> panics when the capacity is negative. (The limit of the
  runtime on the size of an allocation is not part of the model.)
\<close>

definition make_subs :: "GoInt \<Rightarrow> panic + sub list" where
  "make_subs n = (if sint n < 0 then Inl MakeSliceCap else Inr [])"

text \<open>
  The element \<^verbatim>\<open>sub{*r.Owner.Login, *r.Name}\<close> for a pointer \<open>r\<close> to a repository:
  the fields are read in this order and each dereference of nil panics.
\<close>

definition sub_of :: "Repository option \<Rightarrow> panic + sub" where
  "sub_of r =
     (case r of
        None \<Rightarrow> Inl NilDeref
      | Some x \<Rightarrow>
          (case Owner x of
             None \<Rightarrow> Inl NilDeref
           | Some u \<Rightarrow>
               (case Login u of
                  None \<Rightarrow> Inl NilDeref
                | Some l \<Rightarrow>
                    (case Name x of
                       None \<Rightarrow> Inl NilDeref
                     | Some n \<Rightarrow> Inr \<lparr>org = l, repo = n\<rparr>))))"

text \<open>The loop \<^verbatim>\<open>for _, r := range repos { subs = append(subs, ...) }\<close>.\<close>

fun append_repos :: "sub list \<Rightarrow> Repository option list \<Rightarrow> panic + sub list" where
  "append_repos subs [] = Inr subs"
| "append_repos subs (r # repos) =
     (case sub_of r of
        Inl p \<Rightarrow> Inl p
      | Inr s \<Rightarrow> append_repos (subs @ [s]) repos)"

definition Errorf_fetching :: "GoInt \<Rightarrow> error \<Rightarrow> error" where
  "Errorf_fetching pg e =
     wrapError (''fetching page '' @ fmt_d pg @ '' of watched repos: '' @ Error e) e"

text \<open>
  The \<^verbatim>\<open>for\<close> loop of \<open>getSubs\<close>. The accumulator \<open>subs\<close> is \<^const>\<open>None\<close> while the
  slice is nil. The loop runs as long as the service names a next page, which may be
  forever: the first argument bounds the number of iterations, and the result is
  \<^const>\<open>None\<close> when the bound is reached. Otherwise the result is a panic, or the
  error of a failed request, or the accumulated slice.
\<close>

fun getSubs_loop ::
  "nat \<Rightarrow> 'w Client \<Rightarrow> ListOptions \<Rightarrow> sub list option \<Rightarrow> 'w st
     \<Rightarrow> ((panic + (error + sub list)) \<times> 'w st) option" where
  "getSubs_loop 0 c opts subs s = None"
| "getSubs_loop (Suc n) c opts subs s =
     (case call_ListWatched c opts s of
        (Inl e, s') \<Rightarrow> Some (Inr (Inl (Errorf_fetching (Page opts) e)), s')
      | (Inr (repos, res), s') \<Rightarrow>
          (case (case subs of
                   None \<Rightarrow> make_subs (LastPage res * PerPage opts)
                 | Some xs \<Rightarrow> Inr xs) of
             Inl p \<Rightarrow> Some (Inl p, s')
           | Inr xs \<Rightarrow>
               (case append_repos xs repos of
                  Inl p \<Rightarrow> Some (Inl p, s')
                | Inr ys \<Rightarrow>
                    if NextPage res = 0 then Some (Inr (Inr ys), s')
                    else getSubs_loop n c (opts\<lparr>Page := NextPage res\<rparr>) (Some ys) s')))"

text \<open>The comparison function given to \<^verbatim>\<open>sort.Slice\<close>.\<close>

definition sub_less :: "sub \<Rightarrow> sub \<Rightarrow> bool" where
  "sub_less a b = (if org a = org b then repo a < repo b else org a < org b)"

text \<open>
  \<^verbatim>\<open>sort.Slice\<close> is the library's: it sorts the slice by the given comparison and is
  not stable. The model is an insertion sort. For \<^const>\<open>sub_less\<close> the choice of the
  algorithm does not matter: lemma \<open>sort_Slice_sub_less_unique\<close> below shows that every
  sorted rearrangement of the slice is the list computed here.
\<close>

fun insert_by :: "('a \<Rightarrow> 'a \<Rightarrow> bool) \<Rightarrow> 'a \<Rightarrow> 'a list \<Rightarrow> 'a list" where
  "insert_by lt x [] = [x]"
| "insert_by lt x (y # ys) =
     (if lt x y then x # y # ys else y # insert_by lt x ys)"

definition sort_Slice :: "('a \<Rightarrow> 'a \<Rightarrow> bool) \<Rightarrow> 'a list \<Rightarrow> 'a list" where
  "sort_Slice lt xs = foldr (insert_by lt) xs []"

text \<open>
  \<open>getSubs\<close> returns a slice and an error: \<^verbatim>\<open>nil, err\<close> when a request fails (the nil
  slice is the empty list) and the sorted slice with a nil error otherwise.
\<close>

definition getSubs ::
  "nat \<Rightarrow> 'w Client \<Rightarrow> 'w st \<Rightarrow> ((panic + (sub list \<times> error option)) \<times> 'w st) option" where
  "getSubs fuel c s =
     (case getSubs_loop fuel c \<lparr>Page = 0, PerPage = 100\<rparr> None s of
        None \<Rightarrow> None
      | Some (Inl p, s') \<Rightarrow> Some (Inl p, s')
      | Some (Inr (Inl e), s') \<Rightarrow> Some (Inr ([], Some e), s')
      | Some (Inr (Inr subs), s') \<Rightarrow> Some (Inr (sort_Slice sub_less subs, None), s'))"

subsection \<open>The table widget, messages and commands\<close>

text \<open>
  The row data of the table library is a map from column keys to values of any type. The
  program stores a \<open>sub\<close> under the key \<open>colSub\<close> and strings under \<open>colOrg\<close> and
  \<open>colRepo\<close>.
\<close>

datatype cell = SubCell sub | StrCell string

definition colSub :: string where "colSub = ''sub''"
definition colOrg :: string where "colOrg = ''org''"
definition colRepo :: string where "colRepo = ''repo''"

record Row =
  Data :: "string \<rightharpoonup> cell"
  selected :: bool

definition NewRow :: "(string \<rightharpoonup> cell) \<Rightarrow> Row" where
  "NewRow d = \<lparr>Data = d, selected = False\<rparr>"

text \<open>
  What the program sets and reads of the library's table model: its rows (each with its
  mark), the focus flag, the target width and the page size. The library's builder
  methods set one of them each, and \<open>SelectedRows\<close> gives the marked rows in order.
\<close>

record Table =
  rows :: "Row list"
  focused :: bool
  targetWidth :: GoInt
  pageSize :: GoInt
  cursor :: nat

definition table_New :: Table where
  "table_New = \<lparr>rows = [], focused = False, targetWidth = 0, pageSize = 0, cursor = 0\<rparr>"

definition WithRows :: "Table \<Rightarrow> Row list \<Rightarrow> Table" where
  "WithRows t rs = t\<lparr>rows := rs\<rparr>"

definition Focused :: "Table \<Rightarrow> bool \<Rightarrow> Table" where
  "Focused t b = t\<lparr>focused := b\<rparr>"

definition WithTargetWidth :: "Table \<Rightarrow> GoInt \<Rightarrow> Table" where
  "WithTargetWidth t w = t\<lparr>targetWidth := w\<rparr>"

definition WithPageSize :: "Table \<Rightarrow> GoInt \<Rightarrow> Table" where
  "WithPageSize t n = t\<lparr>pageSize := n\<rparr>"

definition SelectedRows :: "Table \<Rightarrow> Row list" where
  "SelectedRows t = filter selected (rows t)"

text \<open>
  A key message is the name of the key (\<^verbatim>\<open>msg.String()\<close>); a binding is the list of
  its key names, and \<^verbatim>\<open>key.Matches\<close> holds when the key is one of them.
\<close>

datatype Msg =
    error_msg error
  | KeyMsg string
  | WindowSizeMsg GoInt GoInt
  | TickMsg
  | subsLoadedMsg "sub list" "error option"
  | library_msg nat

text \<open>
  A command is a function that the runtime calls later, on its own, to get a message.
  \<open>loadSubs_cmd\<close> is the method value \<^verbatim>\<open>m.loadSubs\<close>, and \<open>return_error e\<close> is the
  closure of \<open>unwatch\<close> that returns the error \<open>e\<close>.
\<close>

datatype cmd =
    nil_cmd
  | tea_Quit
  | EnterAltScreen
  | spinner_Tick
  | loadSubs_cmd
  | return_error error
  | Batch "cmd list"
  | library_cmd nat

record keyMap =
  Quit :: "string list"
  Mark :: "string list"
  Exec :: "string list"

definition km :: keyMap where
  "km = \<lparr>Quit = [''q''], Mark = ['' ''], Exec = [''x'']\<rparr>"

definition Matches :: "string \<Rightarrow> string list \<Rightarrow> bool" where
  "Matches k b = (k \<in> set b)"

definition ShortHelp :: "keyMap \<Rightarrow> string list list" where
  "ShortHelp k = [Mark k, Exec k, Quit k]"

text \<open>
  The library functions the session calls: the update and view functions of the table
  and of the spinner (a spinner model is its frame number), the rendering of the help
  line, and the two layout functions of lipgloss.
\<close>

record Widgets =
  table_Update :: "Table \<Rightarrow> Msg \<Rightarrow> Table \<times> cmd"
  table_View :: "Table \<Rightarrow> string"
  spinner_Update :: "nat \<Rightarrow> Msg \<Rightarrow> nat \<times> cmd"
  spinner_View :: "nat \<Rightarrow> string"
  ShortHelpView :: "string list list \<Rightarrow> string"
  Height :: "string \<Rightarrow> GoInt"
  JoinVertical :: "string \<Rightarrow> string \<Rightarrow> string"

subsection \<open>The session\<close>

datatype state = stateLoading | stateError | stateLoaded | stateUnwatching

text \<open>
  The fields \<^verbatim>\<open>help\<close> (a help model without state of its own) and \<^verbatim>\<open>done\<close> (a
  channel that is never used) have no counterpart here.
\<close>

record 'w model =
  table :: Table
  spinner :: nat
  gh :: "'w Client"
  err :: "error option"
  state :: state

definition newModel :: "'w Client \<Rightarrow> 'w model" where
  "newModel c =
     \<lparr>table = table_New, spinner = 0, gh = c, err = None, state = stateLoading\<rparr>"

definition loadSubs ::
  "nat \<Rightarrow> 'w model \<Rightarrow> 'w st \<Rightarrow> ((panic + Msg) \<times> 'w st) option" where
  "loadSubs fuel m s =
     (case getSubs fuel (gh m) (fst s, snd s @ [GetSubsCall]) of
        None \<Rightarrow> None
      | Some (Inl p, s') \<Rightarrow> Some (Inl p, s')
      | Some (Inr (subs, e), s') \<Rightarrow> Some (Inr (subsLoadedMsg subs e), s'))"

definition Init :: "'w model \<Rightarrow> cmd" where
  "Init m = Batch [EnterAltScreen, spinner_Tick, loadSubs_cmd]"

definition Errorf_unwatching :: "sub \<Rightarrow> error \<Rightarrow> error" where
  "Errorf_unwatching x e =
     wrapError (''unwatching '' @ org x @ ''/'' @ repo x @ '': '' @ Error e) e"

text \<open>
  \<open>unwatch\<close> runs its loop when it is called: the delete calls are made before it
  returns the command.
\<close>

fun unwatch :: "'w model \<Rightarrow> sub list \<Rightarrow> 'w st \<Rightarrow> cmd \<times> 'w st" where
  "unwatch m [] s = (loadSubs_cmd, s)"
| "unwatch m (x # xs) s =
     (case call_Delete (gh m) (org x) (repo x) s of
        (Some e, s') \<Rightarrow> (return_error (Errorf_unwatching x e), s')
      | (None, s') \<Rightarrow> unwatch m xs s')"

text \<open>
  The loop of the execute key: \<^verbatim>\<open>subs[i] = r.Data[colSub].(sub)\<close>. The type assertion
  panics when the value is missing or is not a \<open>sub\<close>.
\<close>

fun selected_subs :: "Row list \<Rightarrow> panic + sub list" where
  "selected_subs [] = Inr []"
| "selected_subs (r # rs) =
     (case Data r colSub of
        Some (SubCell x) \<Rightarrow>
          (case selected_subs rs of Inl p \<Rightarrow> Inl p | Inr xs \<Rightarrow> Inr (x # xs))
      | _ \<Rightarrow> Inl TypeAssertion)"

definition row_of :: "sub \<Rightarrow> Row" where
  "row_of x = NewRow [colSub \<mapsto> SubCell x, colOrg \<mapsto> StrCell (org x), colRepo \<mapsto> StrCell (repo x)]"

text \<open>The last two lines of \<open>Update\<close>: the message goes to the table.\<close>

definition table_tail ::
  "Widgets \<Rightarrow> 'w model \<Rightarrow> Msg \<Rightarrow> 'w st \<Rightarrow> (panic + ('w model \<times> cmd)) \<times> 'w st" where
  "table_tail W m msg s =
     (case table_Update W (table m) msg of
        (t, c) \<Rightarrow> (Inr (m\<lparr>table := t\<rparr>, c), s))"

definition Update ::
  "Widgets \<Rightarrow> 'w model \<Rightarrow> Msg \<Rightarrow> 'w st \<Rightarrow> (panic + ('w model \<times> cmd)) \<times> 'w st" where
  "Update W m msg s =
     (case msg of
        error_msg e \<Rightarrow> (Inr (m\<lparr>err := Some e, state := stateError\<rparr>, nil_cmd), s)
      | KeyMsg k \<Rightarrow>
          if Matches k (Quit km) then (Inr (m, tea_Quit), s)
          else if Matches k (Exec km) then
            (case selected_subs (SelectedRows (table m)) of
               Inl p \<Rightarrow> (Inl p, s)
             | Inr subs \<Rightarrow>
                 (case unwatch (m\<lparr>state := stateUnwatching\<rparr>) subs s of
                    (c, s') \<Rightarrow> (Inr (m\<lparr>state := stateUnwatching\<rparr>, c), s')))
          else table_tail W m msg s
      | WindowSizeMsg w h \<Rightarrow>
          (let hh = Height W (ShortHelpView W (ShortHelp km))
           in table_tail W
                (m\<lparr>table := WithPageSize (WithTargetWidth (table m) w) (h - 6 - hh)\<rparr>) msg s)
      | TickMsg \<Rightarrow>
          (case spinner_Update W (spinner m) msg of
             (sp, c) \<Rightarrow> (Inr (m\<lparr>spinner := sp\<rparr>, c), s))
      | subsLoadedMsg subs e \<Rightarrow>
          if e \<noteq> None then (Inr (m\<lparr>state := stateError\<rparr>, nil_cmd), s)
          else table_tail W
                 (m\<lparr>table := Focused (WithRows (table m) (map row_of subs)) True,
                    state := stateLoaded\<rparr>) msg s
      | library_msg n \<Rightarrow> table_tail W m msg s)"

text \<open>
  \<open>View\<close>. (The \<^verbatim>\<open>default\<close> branch of the source is for a state outside the four
  constants, which no assignment of the program produces.)
\<close>

definition View :: "Widgets \<Rightarrow> 'w model \<Rightarrow> string" where
  "View W m =
     (case state m of
        stateError \<Rightarrow> ''Error: '' @ fmt_v (err m) @ newline
      | stateLoaded \<Rightarrow>
          JoinVertical W (table_View W (table m)) (ShortHelpView W (ShortHelp km))
      | stateLoading \<Rightarrow> ''Loading subscriptions '' @ spinner_View W (spinner m) @ newline
      | stateUnwatching \<Rightarrow>
          ''Unwatching marked subscriptions '' @ spinner_View W (spinner m) @ newline)"

subsection \<open>Process entry\<close>

text \<open>
  \<^verbatim>\<open>os.Getenv\<close> gives the empty string for a variable that is not set. \<open>NewClient\<close>
  builds the client from the token and \<open>Start\<close> runs the interactive program on a
  model; both are the libraries'. The state \<open>'p\<close> is all that the program can act on
  once it runs (the terminal and the remote service).
\<close>

definition Getenv :: "(string \<rightharpoonup> string) \<Rightarrow> string \<Rightarrow> string" where
  "Getenv env k = (case env k of None \<Rightarrow> [] | Some v \<Rightarrow> v)"

definition realMain ::
  "(string \<rightharpoonup> string) \<Rightarrow> (string \<Rightarrow> 'w Client) \<Rightarrow> ('w model \<Rightarrow> 'p \<Rightarrow> error option \<times> 'p)
     \<Rightarrow> 'p \<Rightarrow> error option \<times> 'p" where
  "realMain env NewClient Start p =
     (let token = Getenv env ''GITHUB_TOKEN''
      in if token = [] then (Some (errorString ''must set GITHUB_TOKEN''), p)
         else Start (newModel (NewClient token)) p)"

text \<open>The outcome of the process: what it wrote to the error stream and its exit code.\<close>

record exit =
  stderr :: string
  code :: nat

definition main ::
  "(string \<rightharpoonup> string) \<Rightarrow> (string \<Rightarrow> 'w Client) \<Rightarrow> ('w model \<Rightarrow> 'p \<Rightarrow> error option \<times> 'p)
     \<Rightarrow> 'p \<Rightarrow> exit \<times> 'p" where
  "main env NewClient Start p =
     (case realMain env NewClient Start p of
        (Some e, p') \<Rightarrow> (\<lparr>stderr = fmt_v (Some e) @ newline, code = 1\<rparr>, p')
      | (None, p') \<Rightarrow> (\<lparr>stderr = [], code = 0\<rparr>, p'))"

subsection \<open>Notions used to state the properties\<close>

text \<open>The key the snapshot is ordered by: organization first, repository second.\<close>

definition sub_key :: "sub \<Rightarrow> string \<times> string" where
  "sub_key x = (org x, repo x)"

text \<open>The pages that arrived, in the order of their arrival, and all their records.\<close>

fun pages :: "event list \<Rightarrow> Repository option list list" where
  "pages [] = []"
| "pages (ListWatchedCall opts (Inr (repos, res)) # es) = repos # pages es"
| "pages (e # es) = pages es"

definition arrived :: "event list \<Rightarrow> Repository option list" where
  "arrived es = concat (pages es)"

text \<open>A record names a pair when the record, its owner, the login and the name are there.\<close>

definition present :: "Repository option \<Rightarrow> bool" where
  "present r =
     (case r of
        None \<Rightarrow> False
      | Some x \<Rightarrow>
          (case Owner x of
             None \<Rightarrow> False
           | Some u \<Rightarrow> Login u \<noteq> None \<and> Name x \<noteq> None))"

text \<open>
  The (organization, repository) pair that a record names: the login of its owner and its
  name. (It is read off the fields; it is used for records that are there in full.)
\<close>

definition pair_of :: "Repository option \<Rightarrow> sub" where
  "pair_of r = \<lparr>org = the (Login (the (Owner (the r)))), repo = the (Name (the r))\<rparr>"

text \<open>
  The requests of one pagination run: the first asks for page \<open>p\<close>, each asks for 100
  records, a request follows only a page that names a next page, and it asks for that
  page; nothing follows a failed request.
\<close>

fun follows_cursor :: "GoInt \<Rightarrow> event list \<Rightarrow> bool" where
  "follows_cursor p [] = True"
| "follows_cursor p (ListWatchedCall opts r # es) =
     (opts = \<lparr>Page = p, PerPage = 100\<rparr> \<and>
      (case r of
         Inl e \<Rightarrow> es = []
       | Inr (repos, res) \<Rightarrow>
           (if NextPage res = 0 then es = [] else follows_cursor (NextPage res) es)))"
| "follows_cursor p (e # es) = False"

fun is_ListWatched :: "event \<Rightarrow> bool" where
  "is_ListWatched (ListWatchedCall opts r) = True"
| "is_ListWatched e = False"

fun is_Delete :: "event \<Rightarrow> bool" where
  "is_Delete (DeleteCall ow rp r) = True"
| "is_Delete e = False"

text \<open>
  The world after the subscriptions of a list were deleted one after the other, each call
  without an error; \<^const>\<open>None\<close> when one of the calls fails.
\<close>

fun deletes_ok :: "'w Client \<Rightarrow> sub list \<Rightarrow> 'w \<Rightarrow> 'w option" where
  "deletes_ok c [] w = Some w"
| "deletes_ok c (x # xs) w =
     (case DeleteRepositorySubscription c w (org x) (repo x) of
        (None, w') \<Rightarrow> deletes_ok c xs w'
      | (Some e, w') \<Rightarrow> None)"

text \<open>What a row shows in a column, and the pair it shows.\<close>

definition shown :: "Row \<Rightarrow> string \<Rightarrow> string" where
  "shown r k = (case Data r k of Some (StrCell v) \<Rightarrow> v | _ \<Rightarrow> [])"

definition displayed :: "Row \<Rightarrow> sub" where
  "displayed r = \<lparr>org = shown r colOrg, repo = shown r colRepo\<rparr>"

text \<open>
  A row holds under \<open>colSub\<close> the subscription whose organization and repository are
  its cells under \<open>colOrg\<close> and \<open>colRepo\<close>.
\<close>

definition row_ok :: "Row \<Rightarrow> bool" where
  "row_ok r =
     (case Data r colSub of
        Some (SubCell x) \<Rightarrow>
          Data r colOrg = Some (StrCell (org x)) \<and> Data r colRepo = Some (StrCell (repo x))
      | _ \<Rightarrow> False)"

text \<open>
  The table widget is the library's. What is assumed of its update function: it leaves
  the data of the rows as they are (it may change the marks and everything else).
\<close>

definition keeps_data :: "Widgets \<Rightarrow> bool" where
  "keeps_data W =
     (\<forall>t msg. map Data (rows (fst (table_Update W t msg))) = map Data (rows t))"

text \<open>
  The session states that can be reached: from the new model by \<open>Update\<close>, for any
  message and any state of the world.
\<close>

inductive reachable :: "Widgets \<Rightarrow> 'w Client \<Rightarrow> 'w model \<Rightarrow> bool"
  for W :: Widgets and c :: "'w Client" where
  init: "reachable W c (newModel c)"
| step: "reachable W c m \<Longrightarrow> Update W m msg s = (Inr (m', cm), s') \<Longrightarrow> reachable W c m'"

text \<open>
  What \<open>getSubs\<close> returns for a result of its loop, and how the return value goes with
  the last request of the run: after a failed request it is the empty list and the error
  that names the page field of that request and wraps the cause; after a page it is a
  panic, or a list and no error, and then the page named no next page.
\<close>

definition returned :: "panic + (error + sub list) \<Rightarrow> panic + (sub list \<times> error option)" where
  "returned r = (case r of Inl p \<Rightarrow> Inl p | Inr (Inl e) \<Rightarrow> Inr ([], Some e)
                 | Inr (Inr subs) \<Rightarrow> Inr (sort_Slice sub_less subs, None))"

fun ends_with :: "event \<Rightarrow> panic + (sub list \<times> error option) \<Rightarrow> bool" where
  "ends_with (ListWatchedCall opts (Inl e)) out =
     (out = Inr ([], Some (wrapError
        (''fetching page '' @ fmt_d (Page opts) @ '' of watched repos: '' @ Error e) e)))"
| "ends_with (ListWatchedCall opts (Inr (repos, res))) out =
     (case out of Inl p \<Rightarrow> True | Inr (subs, er) \<Rightarrow> er = None \<and> NextPage res = 0)"
| "ends_with e out = False"

text \<open>
  The pagination as the specification words it, with the service as it answers from the
  world \<open>w\<close>: ask for page \<open>p\<close>, 100 records a page; a failed request ends the run; a
  page that names no next page (next page 0) ends the run; otherwise go on with the page
  it names. The result is the list of the requests with their answers and the world after
  the run, or \<^const>\<open>None\<close> when the run needs more than the given number of requests.
\<close>

fun cursor_run :: "'w Client \<Rightarrow> nat \<Rightarrow> GoInt \<Rightarrow> 'w \<Rightarrow> (event list \<times> 'w) option" where
  "cursor_run c 0 p w = None"
| "cursor_run c (Suc n) p w =
     (case ListWatched c w \<lparr>Page = p, PerPage = 100\<rparr> of
        (Inl e, w') \<Rightarrow> Some ([ListWatchedCall \<lparr>Page = p, PerPage = 100\<rparr> (Inl e)], w')
      | (Inr (repos, res), w') \<Rightarrow>
          if NextPage res = 0
          then Some ([ListWatchedCall \<lparr>Page = p, PerPage = 100\<rparr> (Inr (repos, res))], w')
          else (case cursor_run c n (NextPage res) w' of
                  None \<Rightarrow> None
                | Some (es, w'') \<Rightarrow>
                    Some (ListWatchedCall \<lparr>Page = p, PerPage = 100\<rparr> (Inr (repos, res)) # es,
                          w'')))"

text \<open>
  The capacity hint of a run is the last-page estimate of its first page times the page
  size; it must not be negative as a 64-bit integer.
\<close>

fun cap_ok :: "event list \<Rightarrow> bool" where
  "cap_ok (ListWatchedCall opts (Inr (repos, res)) # es) =
     (0 \<le> sint (LastPage res * PerPage opts))"
| "cap_ok es = True"

text \<open>
  What a fetch is to return for the requests of its run: when the last request failed,
  no subscriptions and the error that names the page field of that request and wraps the
  cause; otherwise the pairs of all records that arrived, sorted by their key (with the
  sorting function of the logic's library), and no error.
\<close>

fun failure_of :: "event \<Rightarrow> (GoInt \<times> error) option" where
  "failure_of (ListWatchedCall opts (Inl e)) = Some (Page opts, e)"
| "failure_of ev = None"

definition fetch_result :: "event list \<Rightarrow> sub list \<times> error option" where
  "fetch_result es =
     (case failure_of (last es) of
        Some (p, e) \<Rightarrow>
          ([], Some (wrapError
             (''fetching page '' @ fmt_d p @ '' of watched repos: '' @ Error e) e))
      | None \<Rightarrow> (sort_key sub_key (map pair_of (arrived es)), None))"

subsection \<open>A concrete service and concrete widgets\<close>

text \<open>
  A service with three subscriptions on two pages: the first request (page field 0) gets
  the first page, which names page 2 as the next; every other page is an error. A delete
  call succeeds unless the repository is \<open>locked\<close>. The world is the number of calls
  made so far.
\<close>

definition repo_rec :: "string \<Rightarrow> string \<Rightarrow> Repository option" where
  "repo_rec ow nm = Some \<lparr>Owner = Some \<lparr>Login = Some ow\<rparr>, Name = Some nm\<rparr>"

definition page1 :: page where
  "page1 = ([repo_rec ''zeta'' ''tools'', repo_rec ''acme'' ''widgets''],
            \<lparr>NextPage = 2, LastPage = 2\<rparr>)"

definition page2 :: page where
  "page2 = ([repo_rec ''acme'' ''gadgets''], \<lparr>NextPage = 0, LastPage = 2\<rparr>)"

definition demo_client :: "nat Client" where
  "demo_client =
     \<lparr>ListWatched = (\<lambda>w opts.
        if Page opts = 0 then (Inr page1, Suc w)
        else if Page opts = 2 then (Inr page2, Suc w)
        else (Inl (errorString ''not found''), Suc w)),
      DeleteRepositorySubscription = (\<lambda>w ow rp.
        if rp = ''locked'' then (Some (errorString ''forbidden''), Suc w)
        else (None, Suc w))\<rparr>"

text \<open>A service that is down: every call fails.\<close>

definition down_client :: "nat Client" where
  "down_client =
     \<lparr>ListWatched = (\<lambda>w opts. (Inl (errorString ''boom''), Suc w)),
      DeleteRepositorySubscription = (\<lambda>w ow rp. (Some (errorString ''boom''), Suc w))\<rparr>"

text \<open>
  A service whose first call fails (the world is 0 then) and that answers like
  \<open>demo_client\<close> afterwards.
\<close>

definition flaky_client :: "nat Client" where
  "flaky_client =
     \<lparr>ListWatched = (\<lambda>w opts.
        if w = 0 then (Inl (errorString ''boom''), Suc w)
        else ListWatched demo_client w opts),
      DeleteRepositorySubscription = DeleteRepositorySubscription demo_client\<rparr>"

text \<open>
  A service whose second page holds a subscription of the first page once more, and a
  service whose first page arrives and whose second page fails.
\<close>

definition page2_overlap :: page where
  "page2_overlap = ([repo_rec ''acme'' ''widgets'', repo_rec ''acme'' ''gadgets''],
                    \<lparr>NextPage = 0, LastPage = 2\<rparr>)"

definition overlap_client :: "nat Client" where
  "overlap_client =
     \<lparr>ListWatched = (\<lambda>w opts.
        if Page opts = 0 then (Inr page1, Suc w) else (Inr page2_overlap, Suc w)),
      DeleteRepositorySubscription = DeleteRepositorySubscription demo_client\<rparr>"

definition late_failure_client :: "nat Client" where
  "late_failure_client =
     \<lparr>ListWatched = (\<lambda>w opts.
        if Page opts = 0 then (Inr page1, Suc w) else (Inl (errorString ''boom''), Suc w)),
      DeleteRepositorySubscription = DeleteRepositorySubscription demo_client\<rparr>"

text \<open>A table widget that toggles the mark of the row under the cursor on the space key.\<close>

fun toggle_mark :: "nat \<Rightarrow> Row list \<Rightarrow> Row list" where
  "toggle_mark n [] = []"
| "toggle_mark 0 (r # rs) = r\<lparr>selected := \<not> selected r\<rparr> # rs"
| "toggle_mark (Suc n) (r # rs) = r # toggle_mark n rs"

definition demo_table_Update :: "Table \<Rightarrow> Msg \<Rightarrow> Table \<times> cmd" where
  "demo_table_Update t msg =
     (case msg of
        KeyMsg k \<Rightarrow>
          if k = '' '' then (t\<lparr>rows := toggle_mark (cursor t) (rows t)\<rparr>, nil_cmd)
          else (t, nil_cmd)
      | _ \<Rightarrow> (t, nil_cmd))"

definition demo_widgets :: Widgets where
  "demo_widgets =
     \<lparr>table_Update = demo_table_Update,
      table_View = (\<lambda>t. ''table''),
      spinner_Update = (\<lambda>n msg. (Suc n, spinner_Tick)),
      spinner_View = (\<lambda>n. ''.''),
      ShortHelpView = (\<lambda>ks. ''space toggle mark x unwatch q quit''),
      Height = (\<lambda>v. 1),
      JoinVertical = (\<lambda>a b. a @ newline @ b)\<rparr>"

definition acme_widgets :: sub where
  "acme_widgets = \<lparr>org = ''acme'', repo = ''widgets''\<rparr>"

definition acme_gadgets :: sub where
  "acme_gadgets = \<lparr>org = ''acme'', repo = ''gadgets''\<rparr>"

definition zeta_tools :: sub where
  "zeta_tools = \<lparr>org = ''zeta'', repo = ''tools''\<rparr>"

text \<open>
  Two sessions over \<open>demo_client\<close> and \<open>demo_widgets\<close>: the one after a snapshot of
  two subscriptions was loaded, and the one after the space key then marked the first row.
\<close>

definition demo_loaded :: "nat model" where
  "demo_loaded =
     \<lparr>table = \<lparr>rows = [row_of acme_gadgets, row_of acme_widgets], focused = True,
               targetWidth = 0, pageSize = 0, cursor = 0\<rparr>,
      spinner = 0, gh = demo_client, err = None, state = stateLoaded\<rparr>"

definition demo_marked :: "nat model" where
  "demo_marked =
     \<lparr>table = \<lparr>rows = [(row_of acme_gadgets)\<lparr>selected := True\<rparr>, row_of acme_widgets],
               focused = True, targetWidth = 0, pageSize = 0, cursor = 0\<rparr>,
      spinner = 0, gh = demo_client, err = None, state = stateLoaded\<rparr>"

text \<open>
  Two sessions in the error state: one with the row of \<open>acme/gadgets\<close> marked, and one
  with the row of a repository marked whose subscription the service does not delete.
\<close>

definition acme_locked :: sub where
  "acme_locked = \<lparr>org = ''acme'', repo = ''locked''\<rparr>"

definition error_marked :: "nat model" where
  "error_marked = demo_marked\<lparr>state := stateError\<rparr>"

definition error_locked :: "nat model" where
  "error_locked =
     \<lparr>table = \<lparr>rows = [(row_of acme_locked)\<lparr>selected := True\<rparr>, row_of acme_widgets],
               focused = True, targetWidth = 0, pageSize = 0, cursor = 0\<rparr>,
      spinner = 0, gh = demo_client, err = None, state = stateError\<rparr>"

section \<open>Properties\<close>

subsection \<open>Sorting and accumulation\<close>

lemma sub_less_key: "sub_less a b \<longleftrightarrow> sub_key a < sub_key b"
  by (auto simp: sub_less_def sub_key_def less_prod_def)

lemma inj_sub_key: "inj sub_key"
  by (rule injI) (simp add: sub_key_def)

lemma mset_insert_by: "mset (insert_by lt x xs) = add_mset x (mset xs)"
  by (induction xs) auto

lemma mset_sort_Slice: "mset (sort_Slice lt xs) = mset xs"
  by (induction xs) (auto simp: sort_Slice_def mset_insert_by)

lemma set_insert_by: "set (insert_by lt x xs) = insert x (set xs)"
  by (induction xs) auto

lemma sorted_insert_by:
  "sorted (map sub_key xs) \<Longrightarrow> sorted (map sub_key (insert_by sub_less x xs))"
  by (induction xs) (auto simp: set_insert_by sub_less_key)

lemma sorted_sort_Slice: "sorted (map sub_key (sort_Slice sub_less xs))"
  by (induction xs) (auto simp: sort_Slice_def sorted_insert_by)

lemma sort_Slice_sub_less_unique:
  assumes "mset ys = mset xs" and "sorted (map sub_key ys)"
  shows "ys = sort_Slice sub_less xs"
proof -
  have "mset (map sub_key ys) = mset (map sub_key (sort_Slice sub_less xs))"
    using assms(1) by (simp add: mset_sort_Slice)
  then have "map sub_key ys = map sub_key (sort_Slice sub_less xs)"
    using assms(2) sorted_sort_Slice
    by (metis properties_for_sort)
  then show ?thesis
    using inj_sub_key by (meson inj_map_eq_map)
qed

lemma sub_of_pair_of: "sub_of r = Inr x \<Longrightarrow> present r \<and> x = pair_of r"
  by (auto simp: sub_of_def present_def pair_of_def split: option.splits)

lemma present_sub_of: "present r \<Longrightarrow> sub_of r = Inr (pair_of r)"
  by (auto simp: sub_of_def present_def pair_of_def split: option.splits)

lemma append_repos_pairs:
  "append_repos xs repos = Inr ys \<Longrightarrow> ys = xs @ map pair_of repos \<and> list_all present repos"
proof (induction repos arbitrary: xs)
  case Nil
  then show ?case by simp
next
  case (Cons r repos)
  then obtain x where x: "sub_of r = Inr x" and rest: "append_repos (xs @ [x]) repos = Inr ys"
    by (auto split: sum.splits)
  from Cons.IH[OF rest] sub_of_pair_of[OF x] show ?case by simp
qed

lemma append_repos_present:
  "list_all present repos \<Longrightarrow> append_repos xs repos = Inr (xs @ map pair_of repos)"
  by (induction repos arbitrary: xs) (simp_all add: present_sub_of)

lemma pages_append: "pages (es @ fs) = pages es @ pages fs"
  by (induction es rule: pages.induct) auto

lemma arrived_append: "arrived (es @ fs) = arrived es @ arrived fs"
  by (simp add: arrived_def pages_append)

lemma getSubs_loop_result:
  "getSubs_loop fuel c opts acc (w, l0) = Some (Inr (Inr ys), (w', l1)) \<Longrightarrow>
   \<exists>new. l1 = l0 @ new
      \<and> ys = (case acc of None \<Rightarrow> [] | Some xs \<Rightarrow> xs) @ map pair_of (arrived new)
      \<and> list_all present (arrived new)"
proof (induction fuel arbitrary: opts acc w l0)
  case 0
  then show ?case by simp
next
  case (Suc n)
  obtain r w1 where lw: "ListWatched c w opts = (r, w1)" by (cases "ListWatched c w opts")
  show ?case
  proof (cases r)
    case (Inl e)
    with Suc.prems lw show ?thesis by (simp add: call_ListWatched_def)
  next
    case (Inr pg)
    obtain repos res where pg: "pg = (repos, res)" by (cases pg)
    let ?ev = "ListWatchedCall opts (Inr (repos, res))"
    from Suc.prems lw Inr pg obtain xs zs where
      xs: "(case acc of None \<Rightarrow> make_subs (LastPage res * PerPage opts) | Some v \<Rightarrow> Inr v) = Inr xs"
      and zs: "append_repos xs repos = Inr zs"
      and rest: "(if NextPage res = 0 then Some (Inr (Inr zs), (w1, l0 @ [?ev]))
                 else getSubs_loop n c (opts\<lparr>Page := NextPage res\<rparr>) (Some zs) (w1, l0 @ [?ev]))
                = Some (Inr (Inr ys), (w', l1))"
      by (auto simp: call_ListWatched_def split: sum.splits)
    have xs_eq: "xs = (case acc of None \<Rightarrow> [] | Some v \<Rightarrow> v)"
      using xs by (auto simp: make_subs_def split: option.splits if_splits)
    from append_repos_pairs[OF zs] have zs_eq: "zs = xs @ map pair_of repos"
      and pres: "list_all present repos" by auto
    have one: "arrived [?ev] = repos" by (simp add: arrived_def)
    show ?thesis
    proof (cases "NextPage res = 0")
      case True
      with rest have "ys = zs" "l1 = l0 @ [?ev]" by auto
      then show ?thesis using zs_eq xs_eq pres one by auto
    next
      case False
      with rest have "getSubs_loop n c (opts\<lparr>Page := NextPage res\<rparr>) (Some zs) (w1, l0 @ [?ev])
          = Some (Inr (Inr ys), (w', l1))" by simp
      from Suc.IH[OF this] obtain new where
        n1: "l1 = (l0 @ [?ev]) @ new" and n2: "ys = zs @ map pair_of (arrived new)"
        and n3: "list_all present (arrived new)" by auto
      have "arrived (?ev # new) = repos @ arrived new" by (simp add: arrived_def)
      then show ?thesis using n1 n2 n3 zs_eq xs_eq pres
        by (intro exI[of _ "?ev # new"]) simp
    qed
  qed
qed

lemma getSubs_ok:
  assumes "getSubs fuel c (w, []) = Some (Inr (subs, None), (w', log))"
  shows "\<exists>ys. getSubs_loop fuel c \<lparr>Page = 0, PerPage = 100\<rparr> None (w, []) = Some (Inr (Inr ys), (w', log))
          \<and> subs = sort_Slice sub_less ys"
  using assms by (auto simp: getSubs_def split: option.splits sum.splits prod.splits)

lemma getSubs_sorted_union:
  assumes "getSubs fuel c (w, []) = Some (Inr (subs, None), (w', log))"
  shows "subs = sort_Slice sub_less (map pair_of (arrived log)) \<and> list_all present (arrived log)"
proof -
  from getSubs_ok[OF assms] obtain ys where
    l: "getSubs_loop fuel c \<lparr>Page = 0, PerPage = 100\<rparr> None (w, []) = Some (Inr (Inr ys), (w', log))"
    and s: "subs = sort_Slice sub_less ys" by auto
  from getSubs_loop_result[OF l] show ?thesis using s by auto
qed

lemma demo_run:
  "getSubs 2 demo_client (0, []) =
     Some (Inr ([acme_gadgets, acme_widgets, zeta_tools], None),
           (2, [ListWatchedCall \<lparr>Page = 0, PerPage = 100\<rparr> (Inr page1),
                ListWatchedCall \<lparr>Page = 2, PerPage = 100\<rparr> (Inr page2)]))"
  by (simp add: getSubs_def numeral_2_eq_2 call_ListWatched_def demo_client_def page1_def
      page2_def make_subs_def repo_rec_def sub_of_def sort_Slice_def sub_less_def
      acme_gadgets_def acme_widgets_def zeta_tools_def)

lemma demo_arrived:
  "map pair_of (arrived [ListWatchedCall \<lparr>Page = 0, PerPage = 100\<rparr> (Inr page1),
                ListWatchedCall \<lparr>Page = 2, PerPage = 100\<rparr> (Inr page2)])
     = [zeta_tools, acme_widgets, acme_gadgets]"
  by (simp add: arrived_def page1_def page2_def repo_rec_def pair_of_def
      acme_gadgets_def acme_widgets_def zeta_tools_def)

lemma cursor_run_nonempty: "cursor_run c n p w = Some (es, w') \<Longrightarrow> es \<noteq> []"
  by (cases n) (auto split: prod.splits sum.splits if_splits option.splits)

lemma sort_Slice_sort_key: "sort_Slice sub_less xs = sort_key sub_key xs"
proof -
  have "mset (sort_key sub_key xs) = mset xs" by simp
  moreover have "sorted (map sub_key (sort_key sub_key xs))" by simp
  ultimately show ?thesis by (rule sort_Slice_sub_less_unique [symmetric])
qed

text \<open>
  Total correctness of the loop: when the run that the specification words ends within
  the given number of requests, and no record and no capacity makes the code panic, the
  loop returns, it has made exactly the requests of that run, and its result is the error
  of the failed request or all the pairs that arrived, in the order of arrival.
\<close>

lemma getSubs_loop_total:
  "cursor_run c fuel (Page opts) w = Some (evs, w') \<Longrightarrow> PerPage opts = 100 \<Longrightarrow>
   list_all present (arrived evs) \<Longrightarrow> (acc = None \<longrightarrow> cap_ok evs) \<Longrightarrow>
   getSubs_loop fuel c opts acc (w, l) =
     Some (Inr (case failure_of (last evs) of
                  Some (p, e) \<Rightarrow> Inl (Errorf_fetching p e)
                | None \<Rightarrow> Inr ((case acc of None \<Rightarrow> [] | Some xs \<Rightarrow> xs)
                                 @ map pair_of (arrived evs))),
           (w', l @ evs))"
proof (induction fuel arbitrary: opts acc w l evs)
  case 0
  then show ?case by simp
next
  case (Suc n)
  have opts: "\<lparr>Page = Page opts, PerPage = 100\<rparr> = opts" using Suc.prems(2) by simp
  obtain r w1 where lw: "ListWatched c w opts = (r, w1)" by (cases "ListWatched c w opts")
  show ?case
  proof (cases r)
    case (Inl e)
    with Suc.prems(1) lw opts have "evs = [ListWatchedCall opts (Inl e)]" "w' = w1"
      by auto
    with Inl lw show ?thesis by (simp add: call_ListWatched_def)
  next
    case (Inr pg)
    obtain repos res where pg: "pg = (repos, res)" by (cases pg)
    note r = Inr[unfolded pg]
    let ?ev = "ListWatchedCall opts (Inr (repos, res))"
    let ?xs = "case acc of None \<Rightarrow> [] | Some xs \<Rightarrow> xs"
    have hd_ev: "\<exists>es. evs = ?ev # es"
      using Suc.prems(1) lw r opts by (auto split: if_splits option.splits)
    then obtain es where evs: "evs = ?ev # es" by blast
    have arr: "arrived evs = repos @ arrived es" by (simp add: evs arrived_def)
    with Suc.prems(3) have pres: "list_all present repos" and pres_es: "list_all present (arrived es)"
      by simp_all
    have mk: "(case acc of None \<Rightarrow> make_subs (LastPage res * PerPage opts) | Some v \<Rightarrow> Inr v)
              = Inr ?xs"
      using Suc.prems(4) evs by (cases acc) (simp_all add: make_subs_def)
    have ap: "append_repos ?xs repos = Inr (?xs @ map pair_of repos)"
      by (rule append_repos_present[OF pres])
    show ?thesis
    proof (cases "NextPage res = 0")
      case True
      with Suc.prems(1) lw r opts have "evs = [?ev]" "w' = w1" by auto
      with True lw r mk ap show ?thesis
        by (simp add: call_ListWatched_def arrived_def)
    next
      case False
      with Suc.prems(1) lw r opts evs have run: "cursor_run c n (NextPage res) w1 = Some (es, w')"
        by (auto split: option.splits)
      have ne: "es \<noteq> []" by (rule cursor_run_nonempty[OF run])
      have "getSubs_loop n c (opts\<lparr>Page := NextPage res\<rparr>) (Some (?xs @ map pair_of repos))
              (w1, l @ [?ev]) =
            Some (Inr (case failure_of (last es) of
                         Some (p, e) \<Rightarrow> Inl (Errorf_fetching p e)
                       | None \<Rightarrow> Inr ((case Some (?xs @ map pair_of repos) of
                                           None \<Rightarrow> [] | Some xs \<Rightarrow> xs)
                                        @ map pair_of (arrived es))),
                  (w', (l @ [?ev]) @ es))"
        using run Suc.prems(2) pres_es by (intro Suc.IH) simp_all
      with False lw r mk ap ne show ?thesis
        by (cases "failure_of (last es)") (auto simp: call_ListWatched_def evs arr [unfolded evs])
    qed
  qed
qed

lemma getSubs_total:
  assumes "cursor_run c fuel 0 w = Some (evs, w')"
    and "list_all present (arrived evs)" and "cap_ok evs"
  shows "getSubs fuel c (w, l) = Some (Inr (fetch_result evs), (w', l @ evs))"
proof -
  have "getSubs_loop fuel c \<lparr>Page = 0, PerPage = 100\<rparr> None (w, l) =
     Some (Inr (case failure_of (last evs) of
                  Some (p, e) \<Rightarrow> Inl (Errorf_fetching p e)
                | None \<Rightarrow> Inr ((case None of None \<Rightarrow> [] | Some xs \<Rightarrow> xs)
                                 @ map pair_of (arrived evs))),
           (w', l @ evs))"
    using assms by (intro getSubs_loop_total) simp_all
  then show ?thesis
    by (cases "failure_of (last evs)")
       (auto simp: getSubs_def fetch_result_def Errorf_fetching_def sort_Slice_sort_key)
qed

lemma demo_cursor_run:
  "cursor_run demo_client 2 0 0 =
     Some ([ListWatchedCall \<lparr>Page = 0, PerPage = 100\<rparr> (Inr page1),
            ListWatchedCall \<lparr>Page = 2, PerPage = 100\<rparr> (Inr page2)], 2)"
  by (simp add: numeral_2_eq_2 demo_client_def page1_def page2_def)

lemma demo_pages_ok:
  "list_all present (arrived [ListWatchedCall \<lparr>Page = 0, PerPage = 100\<rparr> (Inr page1),
                              ListWatchedCall \<lparr>Page = 2, PerPage = 100\<rparr> (Inr page2)])
   \<and> cap_ok [ListWatchedCall \<lparr>Page = 0, PerPage = 100\<rparr> (Inr page1),
              ListWatchedCall \<lparr>Page = 2, PerPage = 100\<rparr> (Inr page2)]"
  by (simp add: arrived_def page1_def page2_def repo_rec_def present_def)

lemma demo_fetch_result:
  "fetch_result [ListWatchedCall \<lparr>Page = 0, PerPage = 100\<rparr> (Inr page1),
                 ListWatchedCall \<lparr>Page = 2, PerPage = 100\<rparr> (Inr page2)]
     = ([acme_gadgets, acme_widgets, zeta_tools], None)"
  by (simp add: fetch_result_def demo_arrived sub_key_def
      acme_gadgets_def acme_widgets_def zeta_tools_def)

subsection \<open>The subscription fetcher\<close>

text \<open>
  Claim C1, as amended. When a fetch succeeds, every record of every page that arrived is
  there in full, and the returned list holds the pair of each of these records, once for
  each record: nothing is lost, nothing is added and nothing is taken out, so a pair that
  arrived twice is there twice, and when no pair arrived twice each pair of the union is
  there exactly once. The list is ascending by organization first and repository second,
  in the bytewise order of strings. The result does not depend on the order of arrival:
  two fetches whose pages hold the same records return the same list.

  And a fetch does succeed: when the pagination run of the service ends within the given
  number of requests, no request of it fails, and no record and no capacity makes the code
  panic, \<open>getSubs\<close> returns the pairs of all the records of the run, sorted by their key,
  and no error.
\<close>

theorem getSubs_union_sorted:
  "(getSubs fuel c (w, []) = Some (Inr (subs, None), (w', log)) \<longrightarrow>
       list_all present (arrived log)
       \<and> mset subs = mset (map pair_of (arrived log))
       \<and> sorted (map sub_key subs)
       \<and> (distinct (map pair_of (arrived log)) \<longrightarrow>
            distinct subs \<and> set subs = set (map pair_of (arrived log)))
       \<and> (\<forall>fuel2 (c2 :: 'v Client) w2 subs2 w2' log2.
            getSubs fuel2 c2 (w2, []) = Some (Inr (subs2, None), (w2', log2))
            \<and> mset (map pair_of (arrived log2)) = mset (map pair_of (arrived log))
            \<longrightarrow> subs2 = subs))
   \<and> (cursor_run c fuel 0 w = Some (evs, w1) \<and> list_all present (arrived evs) \<and> cap_ok evs
        \<and> failure_of (last evs) = None \<longrightarrow>
        getSubs fuel c (w, []) =
          Some (Inr (sort_key sub_key (map pair_of (arrived evs)), None), (w1, evs)))"
proof -
  have part1: "list_all present (arrived log)
       \<and> mset subs = mset (map pair_of (arrived log))
       \<and> sorted (map sub_key subs)
       \<and> (distinct (map pair_of (arrived log)) \<longrightarrow>
            distinct subs \<and> set subs = set (map pair_of (arrived log)))
       \<and> (\<forall>fuel2 (c2 :: 'v Client) w2 subs2 w2' log2.
            getSubs fuel2 c2 (w2, []) = Some (Inr (subs2, None), (w2', log2))
            \<and> mset (map pair_of (arrived log2)) = mset (map pair_of (arrived log))
            \<longrightarrow> subs2 = subs)"
    if run: "getSubs fuel c (w, []) = Some (Inr (subs, None), (w', log))"
  proof -
    from getSubs_sorted_union[OF run] have
      s: "subs = sort_Slice sub_less (map pair_of (arrived log))"
      and pres: "list_all present (arrived log)" by auto
    have m: "mset subs = mset (map pair_of (arrived log))"
      by (simp only: s mset_sort_Slice)
    have so: "sorted (map sub_key subs)" by (simp only: s sorted_sort_Slice)
    have d: "distinct (map pair_of (arrived log)) \<longrightarrow>
              distinct subs \<and> set subs = set (map pair_of (arrived log))"
      using m by (metis mset_eq_imp_distinct_iff mset_eq_setD)
    have u: "subs2 = subs"
      if "getSubs fuel2 c2 (w2, []) = Some (Inr (subs2, None), (w2', log2))"
        and "mset (map pair_of (arrived log2)) = mset (map pair_of (arrived log))"
      for fuel2 and c2 :: "'v Client" and w2 subs2 w2' log2
    proof -
      from getSubs_sorted_union[OF that(1)]
      have "subs2 = sort_Slice sub_less (map pair_of (arrived log2))" by simp
      then have "mset subs2 = mset (map pair_of (arrived log))" "sorted (map sub_key subs2)"
        using that(2) by (simp_all only: mset_sort_Slice sorted_sort_Slice)
      from sort_Slice_sub_less_unique[OF this] show ?thesis using s by simp
    qed
    from pres m so d u show ?thesis by blast
  qed
  have part2: "getSubs fuel c (w, []) =
          Some (Inr (sort_key sub_key (map pair_of (arrived evs)), None), (w1, evs))"
    if h: "cursor_run c fuel 0 w = Some (evs, w1) \<and> list_all present (arrived evs) \<and> cap_ok evs
        \<and> failure_of (last evs) = None"
  proof -
    from h have "getSubs fuel c (w, []) = Some (Inr (fetch_result evs), (w1, [] @ evs))"
      by (intro getSubs_total) simp_all
    with h show ?thesis by (simp add: fetch_result_def)
  qed
  from part1 part2 show ?thesis by blast
qed

theorem getSubs_union_sorted_witness:
  "getSubs 2 demo_client (0, []) =
     Some (Inr ([acme_gadgets, acme_widgets, zeta_tools], None),
           (2, [ListWatchedCall \<lparr>Page = 0, PerPage = 100\<rparr> (Inr page1),
                ListWatchedCall \<lparr>Page = 2, PerPage = 100\<rparr> (Inr page2)]))
   \<and> sort_key sub_key [zeta_tools, acme_widgets, acme_gadgets]
       = [acme_gadgets, acme_widgets, zeta_tools]
   \<and> mset [acme_gadgets, acme_widgets, zeta_tools] = mset [zeta_tools, acme_widgets, acme_gadgets]
   \<and> sorted (map sub_key [acme_gadgets, acme_widgets, zeta_tools])"
proof -
  let ?log = "[ListWatchedCall \<lparr>Page = 0, PerPage = 100\<rparr> (Inr page1),
               ListWatchedCall \<lparr>Page = 2, PerPage = 100\<rparr> (Inr page2)]"
  have srt: "sort_key sub_key [zeta_tools, acme_widgets, acme_gadgets]
       = [acme_gadgets, acme_widgets, zeta_tools]"
    by (simp add: sub_key_def acme_gadgets_def acme_widgets_def zeta_tools_def)
  have nofail: "failure_of (last ?log) = None" by simp
  have run: "getSubs 2 demo_client (0, []) =
          Some (Inr (sort_key sub_key (map pair_of (arrived ?log)), None), (2, ?log))"
    using getSubs_union_sorted [where c = demo_client and fuel = 2 and w = 0 and evs = ?log
        and ?w1.0 = 2] demo_cursor_run demo_pages_ok nofail
    by blast
  then have run': "getSubs 2 demo_client (0, []) =
          Some (Inr ([acme_gadgets, acme_widgets, zeta_tools], None), (2, ?log))"
    unfolding demo_arrived srt .
  have "mset [acme_gadgets, acme_widgets, zeta_tools] = mset (map pair_of (arrived ?log))
        \<and> sorted (map sub_key [acme_gadgets, acme_widgets, zeta_tools])"
    using getSubs_union_sorted [where c = demo_client and fuel = 2 and w = 0
        and subs = "[acme_gadgets, acme_widgets, zeta_tools]" and w' = 2 and log = ?log] run'
    by blast
  then show ?thesis using run' srt unfolding demo_arrived by blast
qed

text \<open>
  Claim C1 as stated has each pair of the union in the list exactly once. Here the second
  page holds \<open>acme/widgets\<close> once more; the fetch succeeds and its list holds the pair
  twice.
\<close>

theorem getSubs_overlap_counterexample:
  "getSubs 2 overlap_client (0, []) =
     Some (Inr ([acme_gadgets, acme_widgets, acme_widgets, zeta_tools], None),
           (2, [ListWatchedCall \<lparr>Page = 0, PerPage = 100\<rparr> (Inr page1),
                ListWatchedCall \<lparr>Page = 2, PerPage = 100\<rparr> (Inr page2_overlap)]))
   \<and> count_list [acme_gadgets, acme_widgets, acme_widgets, zeta_tools] acme_widgets = 2"
  by (simp add: getSubs_def numeral_2_eq_2 call_ListWatched_def overlap_client_def page1_def
      page2_overlap_def make_subs_def repo_rec_def sub_of_def sort_Slice_def sub_less_def
      acme_gadgets_def acme_widgets_def zeta_tools_def)

subsection \<open>Pagination\<close>

lemma getSubs_returned:
  "getSubs fuel c s = map_option (\<lambda>(r, s'). (returned r, s')) (getSubs_loop fuel c \<lparr>Page = 0, PerPage = 100\<rparr> None s)"
  by (auto simp: getSubs_def returned_def split: option.splits sum.splits prod.splits)

lemma getSubs_loop_log:
  "getSubs_loop fuel c opts acc (w, l0) = Some (out, (w', l1)) \<Longrightarrow> PerPage opts = 100 \<Longrightarrow>
   \<exists>new. l1 = l0 @ new \<and> new \<noteq> [] \<and> follows_cursor (Page opts) new
      \<and> list_all is_ListWatched new \<and> ends_with (last new) (returned out)"
proof (induction fuel arbitrary: opts acc w l0)
  case 0
  then show ?case by simp
next
  case (Suc n)
  obtain r w1 where lw: "ListWatched c w opts = (r, w1)" by (cases "ListWatched c w opts")
  have opts: "opts = \<lparr>Page = Page opts, PerPage = 100\<rparr>" using Suc.prems(2) by simp
  show ?case
  proof (cases r)
    case (Inl e)
    let ?ev = "ListWatchedCall opts (Inl e)"
    from Inl Suc.prems(1) lw have "out = Inr (Inl (Errorf_fetching (Page opts) e))" "l1 = l0 @ [?ev]"
      by (auto simp: call_ListWatched_def)
    with opts show ?thesis
      by (intro exI[of _ "[?ev]"]) (simp add: returned_def Errorf_fetching_def)
  next
    case (Inr pg)
    obtain repos res where pg: "pg = (repos, res)" by (cases pg)
    note r = Inr[unfolded pg]
    let ?ev = "ListWatchedCall opts (Inr (repos, res))"
    from Suc.prems(1) lw r have body:
      "(case (case acc of None \<Rightarrow> make_subs (LastPage res * PerPage opts) | Some xs \<Rightarrow> Inr xs) of
          Inl p \<Rightarrow> Some (Inl p, (w1, l0 @ [?ev]))
        | Inr xs \<Rightarrow>
            (case append_repos xs repos of
               Inl p \<Rightarrow> Some (Inl p, (w1, l0 @ [?ev]))
             | Inr ys \<Rightarrow>
                 if NextPage res = 0 then Some (Inr (Inr ys), (w1, l0 @ [?ev]))
                 else getSubs_loop n c (opts\<lparr>Page := NextPage res\<rparr>) (Some ys) (w1, l0 @ [?ev])))
       = Some (out, (w', l1))"
      by (simp add: call_ListWatched_def)
    have single: "\<exists>new. l1 = l0 @ new \<and> new \<noteq> [] \<and> follows_cursor (Page opts) new
        \<and> list_all is_ListWatched new \<and> ends_with (last new) (returned out)"
      if "l1 = l0 @ [?ev]" and "(\<exists>p. out = Inl p) \<or> ((\<exists>ys. out = Inr (Inr ys)) \<and> NextPage res = 0)"
      using that opts r
      by (intro exI[of _ "[?ev]"]) (auto simp: returned_def)
    show ?thesis
    proof (cases "case acc of None \<Rightarrow> make_subs (LastPage res * PerPage opts) | Some xs \<Rightarrow> Inr xs")
      case (Inl p)
      with body have "out = Inl p" "l1 = l0 @ [?ev]" by auto
      then show ?thesis using single by blast
    next
      case xs: (Inr xs)
      show ?thesis
      proof (cases "append_repos xs repos")
        case (Inl p)
        with body xs have "out = Inl p" "l1 = l0 @ [?ev]" by auto
        then show ?thesis using single by blast
      next
        case ys: (Inr ys)
        show ?thesis
        proof (cases "NextPage res = 0")
          case True
          with body xs ys have "out = Inr (Inr ys)" "l1 = l0 @ [?ev]" by auto
          then show ?thesis using single True by blast
        next
          case False
          with body xs ys have rec:
            "getSubs_loop n c (opts\<lparr>Page := NextPage res\<rparr>) (Some ys) (w1, l0 @ [?ev])
               = Some (out, (w', l1))" by simp
          have "PerPage (opts\<lparr>Page := NextPage res\<rparr>) = 100" using Suc.prems(2) by simp
          from Suc.IH[OF rec this] obtain new where
            n1: "l1 = (l0 @ [?ev]) @ new" and n2: "new \<noteq> []"
            and n3: "follows_cursor (NextPage res) new"
            and n4: "list_all is_ListWatched new"
            and n5: "ends_with (last new) (returned out)" by auto
          have "follows_cursor (Page opts) (?ev # new)"
            using opts r False n3 by simp
          then show ?thesis using n1 n2 n4 n5 r
            by (intro exI[of _ "?ev # new"]) simp
        qed
      qed
    qed
  qed
qed

lemma getSubs_log:
  assumes "getSubs fuel c (w, l0) = Some (out, (w', l1))"
  shows "\<exists>new. l1 = l0 @ new \<and> new \<noteq> [] \<and> follows_cursor 0 new
      \<and> list_all is_ListWatched new \<and> ends_with (last new) out"
proof -
  from assms obtain r where
    l: "getSubs_loop fuel c \<lparr>Page = 0, PerPage = 100\<rparr> None (w, l0) = Some (r, (w', l1))"
    and o: "out = returned r"
    by (auto simp: getSubs_returned)
  from getSubs_loop_log[OF l] o show ?thesis by simp
qed

lemma getSubs_loop_abort:
  assumes "ListWatched c w opts = (Inl e, w1)"
  shows "getSubs_loop (Suc n) c opts acc (w, l) =
     Some (Inr (Inl (wrapError
        (''fetching page '' @ fmt_d (Page opts) @ '' of watched repos: '' @ Error e) e)),
           (w1, l @ [ListWatchedCall opts (Inl e)]))"
  using assms by (simp add: call_ListWatched_def Errorf_fetching_def)

lemma fmt_d_0: "fmt_d 0 = ''0''"
  by (simp add: fmt_d_def itoa.simps digit_def)

lemma fmt_d_7: "fmt_d 7 = ''7''"
  by (simp add: fmt_d_def itoa.simps digit_def)

lemma fmt_d_m12: "fmt_d (-12) = ''-12''"
  by (simp add: fmt_d_def itoa.simps digit_def)

lemma fmt_d_340: "fmt_d 340 = ''340''"
  by (simp add: fmt_d_def itoa.simps digit_def)

lemma fmt_d_2: "fmt_d 2 = ''2''"
  by (simp add: fmt_d_def itoa.simps digit_def)

lemma late_cursor_run:
  "cursor_run late_failure_client 2 0 0 =
     Some ([ListWatchedCall \<lparr>Page = 0, PerPage = 100\<rparr> (Inr page1),
            ListWatchedCall \<lparr>Page = 2, PerPage = 100\<rparr> (Inl (errorString ''boom''))], 2)"
  by (simp add: numeral_2_eq_2 late_failure_client_def page1_def)

lemma late_pages_ok:
  "list_all present (arrived [ListWatchedCall \<lparr>Page = 0, PerPage = 100\<rparr> (Inr page1),
            ListWatchedCall \<lparr>Page = 2, PerPage = 100\<rparr> (Inl (errorString ''boom''))])
   \<and> cap_ok [ListWatchedCall \<lparr>Page = 0, PerPage = 100\<rparr> (Inr page1),
            ListWatchedCall \<lparr>Page = 2, PerPage = 100\<rparr> (Inl (errorString ''boom''))]"
  by (simp add: arrived_def page1_def repo_rec_def present_def)

lemma late_fetch_result:
  "fetch_result [ListWatchedCall \<lparr>Page = 0, PerPage = 100\<rparr> (Inr page1),
            ListWatchedCall \<lparr>Page = 2, PerPage = 100\<rparr> (Inl (errorString ''boom''))]
     = ([], Some (wrapError ''fetching page 2 of watched repos: boom'' (errorString ''boom'')))"
  by (simp add: fetch_result_def fmt_d_2)

text \<open>
  Claim C4, as amended. A pagination run asks for 100 records a page. Its first request
  leaves the page field at 0 (the field is not set; the service answers with its first
  page), and each later request asks for the page that the page before named as the next;
  the run ends with the page that names no next page (next page 0). A request that fails
  ends the run at once: \<open>getSubs\<close> returns the empty list and an error that names the
  page field of the failed request (0 for the first request) and wraps the cause, whatever
  was accumulated from the pages before.

  The first part of the theorem is about the run that these words describe
  (\<open>cursor_run\<close>, from page field 0): when it ends within the given number of requests
  and nothing makes the code panic, \<open>getSubs\<close> returns, it has made exactly the requests
  of that run, and it returns what \<open>fetch_result\<close> gives for them. The second part is
  about every return of \<open>getSubs\<close>, a panic too; the third is the single step at a
  failed request.
\<close>

theorem getSubs_pagination:
  "(cursor_run c fuel 0 w = Some (evs, w') \<and> list_all present (arrived evs) \<and> cap_ok evs \<longrightarrow>
      getSubs fuel c (w, []) = Some (Inr (fetch_result evs), (w', evs)))
   \<and> (getSubs fuel c (w, []) = Some (out, (w', log)) \<longrightarrow>
      log \<noteq> [] \<and> follows_cursor 0 log \<and> ends_with (last log) out)
   \<and> (ListWatched c w opts = (Inl e, w1) \<longrightarrow>
        getSubs_loop (Suc n) c opts acc (w, l) =
          Some (Inr (Inl (wrapError
             (''fetching page '' @ fmt_d (Page opts) @ '' of watched repos: '' @ Error e) e)),
                (w1, l @ [ListWatchedCall opts (Inl e)])))"
proof -
  have t: "cursor_run c fuel 0 w = Some (evs, w') \<and> list_all present (arrived evs) \<and> cap_ok evs
      \<longrightarrow> getSubs fuel c (w, []) = Some (Inr (fetch_result evs), (w', evs))"
  proof
    assume h: "cursor_run c fuel 0 w = Some (evs, w') \<and> list_all present (arrived evs) \<and> cap_ok evs"
    then have "getSubs fuel c (w, []) = Some (Inr (fetch_result evs), (w', [] @ evs))"
      by (intro getSubs_total) simp_all
    then show "getSubs fuel c (w, []) = Some (Inr (fetch_result evs), (w', evs))" by simp
  qed
  have a: "getSubs fuel c (w, []) = Some (out, (w', log)) \<longrightarrow>
      log \<noteq> [] \<and> follows_cursor 0 log \<and> ends_with (last log) out"
  proof
    assume "getSubs fuel c (w, []) = Some (out, (w', log))"
    from getSubs_log[OF this]
    show "log \<noteq> [] \<and> follows_cursor 0 log \<and> ends_with (last log) out"
      by auto
  qed
  have b: "ListWatched c w opts = (Inl e, w1) \<longrightarrow>
        getSubs_loop (Suc n) c opts acc (w, l) =
          Some (Inr (Inl (wrapError
             (''fetching page '' @ fmt_d (Page opts) @ '' of watched repos: '' @ Error e) e)),
                (w1, l @ [ListWatchedCall opts (Inl e)]))"
  proof
    assume "ListWatched c w opts = (Inl e, w1)"
    then show "getSubs_loop (Suc n) c opts acc (w, l) =
          Some (Inr (Inl (wrapError
             (''fetching page '' @ fmt_d (Page opts) @ '' of watched repos: '' @ Error e) e)),
                (w1, l @ [ListWatchedCall opts (Inl e)]))"
      by (rule getSubs_loop_abort)
  qed
  from t a b show ?thesis by (intro conjI)
qed

theorem getSubs_pagination_witness:
  "cursor_run demo_client 2 0 0 =
     Some ([ListWatchedCall \<lparr>Page = 0, PerPage = 100\<rparr> (Inr page1),
            ListWatchedCall \<lparr>Page = 2, PerPage = 100\<rparr> (Inr page2)], 2)
   \<and> getSubs 2 demo_client (0, []) =
       Some (Inr ([acme_gadgets, acme_widgets, zeta_tools], None),
             (2, [ListWatchedCall \<lparr>Page = 0, PerPage = 100\<rparr> (Inr page1),
                  ListWatchedCall \<lparr>Page = 2, PerPage = 100\<rparr> (Inr page2)]))
   \<and> getSubs 2 late_failure_client (0, []) =
       Some (Inr ([], Some (wrapError ''fetching page 2 of watched repos: boom''
                              (errorString ''boom''))),
             (2, [ListWatchedCall \<lparr>Page = 0, PerPage = 100\<rparr> (Inr page1),
                  ListWatchedCall \<lparr>Page = 2, PerPage = 100\<rparr> (Inl (errorString ''boom''))]))
   \<and> follows_cursor 0 [ListWatchedCall \<lparr>Page = 0, PerPage = 100\<rparr> (Inr page1),
                        ListWatchedCall \<lparr>Page = 2, PerPage = 100\<rparr> (Inr page2)]
   \<and> ends_with (ListWatchedCall \<lparr>Page = 2, PerPage = 100\<rparr> (Inr page2))
        (Inr ([acme_gadgets, acme_widgets, zeta_tools], None))
   \<and> getSubs_loop (Suc 0) down_client \<lparr>Page = 7, PerPage = 100\<rparr> (Some [acme_widgets]) (0, []) =
       Some (Inr (Inl (wrapError ''fetching page 7 of watched repos: boom'' (errorString ''boom''))),
             (1, [ListWatchedCall \<lparr>Page = 7, PerPage = 100\<rparr> (Inl (errorString ''boom''))]))"
proof -
  let ?log = "[ListWatchedCall \<lparr>Page = 0, PerPage = 100\<rparr> (Inr page1),
               ListWatchedCall \<lparr>Page = 2, PerPage = 100\<rparr> (Inr page2)]"
  let ?late = "[ListWatchedCall \<lparr>Page = 0, PerPage = 100\<rparr> (Inr page1),
                ListWatchedCall \<lparr>Page = 2, PerPage = 100\<rparr> (Inl (errorString ''boom''))]"
  have down: "ListWatched down_client 0 \<lparr>Page = 7, PerPage = 100\<rparr> = (Inl (errorString ''boom''), 1)"
    by (simp add: down_client_def)
  have g1: "getSubs 2 demo_client (0, []) = Some (Inr (fetch_result ?log), (2, ?log))"
    using getSubs_pagination [where c = demo_client and fuel = 2 and w = 0 and evs = ?log
        and w' = 2] demo_cursor_run demo_pages_ok
    by blast
  have g2: "getSubs 2 late_failure_client (0, []) = Some (Inr (fetch_result ?late), (2, ?late))"
    using getSubs_pagination [where c = late_failure_client and fuel = 2 and w = 0
        and evs = ?late and w' = 2] late_cursor_run late_pages_ok
    by blast
  have a: "follows_cursor 0 ?log
     \<and> ends_with (ListWatchedCall \<lparr>Page = 2, PerPage = 100\<rparr> (Inr page2))
        (Inr ([acme_gadgets, acme_widgets, zeta_tools], None))"
    using getSubs_pagination [where fuel = 2 and c = demo_client and w = 0
        and out = "Inr ([acme_gadgets, acme_widgets, zeta_tools], None)" and w' = 2
        and log = ?log]
      demo_run
    by simp
  have b: "getSubs_loop (Suc 0) down_client \<lparr>Page = 7, PerPage = 100\<rparr> (Some [acme_widgets]) (0, []) =
       Some (Inr (Inl (wrapError ''fetching page 7 of watched repos: boom'' (errorString ''boom''))),
             (1, [ListWatchedCall \<lparr>Page = 7, PerPage = 100\<rparr> (Inl (errorString ''boom''))]))"
    using getSubs_pagination [where c = down_client and w = 0
        and opts = "\<lparr>Page = 7, PerPage = 100\<rparr>" and e = "errorString ''boom''" and ?w1.0 = 1
        and n = 0 and acc = "Some [acme_widgets]" and l = "[]"]
      down
    by (simp add: fmt_d_7)
  from demo_cursor_run g1 [unfolded demo_fetch_result] g2 [unfolded late_fetch_result]
    conjunct1 [OF a] conjunct2 [OF a] b
  show ?thesis by (intro conjI)
qed

text \<open>
  Claim C4 as stated has the run start at page 1 and the error name the page that failed.
  When the first request fails, the request carried page 0 and the error says page 0.
\<close>

theorem getSubs_first_page_counterexample:
  "getSubs 1 down_client (0, []) =
     Some (Inr ([], Some (wrapError ''fetching page 0 of watched repos: boom''
                            (errorString ''boom''))),
           (1, [ListWatchedCall \<lparr>Page = 0, PerPage = 100\<rparr> (Inl (errorString ''boom''))]))"
  by (simp add: getSubs_def call_ListWatched_def down_client_def Errorf_fetching_def fmt_d_0)

subsection \<open>Nil fields\<close>

lemma sub_of_present: "present r \<longleftrightarrow> (\<exists>x. sub_of r = Inr x)"
  by (auto simp: present_def sub_of_def split: option.splits)

lemma sub_of_panic: "sub_of r = Inl p \<Longrightarrow> p = NilDeref"
  by (auto simp: sub_of_def split: option.splits)

lemma append_repos_total:
  "list_all present repos \<longleftrightarrow> (\<exists>ys. append_repos xs repos = Inr ys)"
proof (induction repos arbitrary: xs)
  case Nil
  then show ?case by simp
next
  case (Cons r repos)
  show ?case
  proof (cases "sub_of r")
    case (Inl p)
    then have "\<not> present r" by (simp add: sub_of_present)
    with Inl show ?thesis by simp
  next
    case (Inr x)
    then have "present r" by (auto simp: sub_of_present)
    with Inr Cons.IH[of "xs @ [x]"] show ?thesis by simp
  qed
qed

lemma append_repos_panic: "append_repos xs repos = Inl p \<Longrightarrow> p = NilDeref \<and> \<not> list_all present repos"
proof -
  assume a: "append_repos xs repos = Inl p"
  then have "\<not> list_all present repos" using append_repos_total[of repos xs] by auto
  moreover from a have "p = NilDeref"
    by (induction repos arbitrary: xs) (auto split: sum.splits dest: sub_of_panic)
  ultimately show ?thesis by simp
qed

lemma getSubs_loop_NilDeref:
  assumes ok: "\<forall>w opts repos res w'. ListWatched c w opts = (Inr (repos, res), w') \<longrightarrow> list_all present repos"
  shows "getSubs_loop fuel c opts acc s \<noteq> Some (Inl NilDeref, s')"
proof (induction fuel arbitrary: opts acc s)
  case 0
  then show ?case by simp
next
  case (Suc n)
  obtain r w1 where lw: "ListWatched c (fst s) opts = (r, w1)" by (cases "ListWatched c (fst s) opts")
  show ?case
  proof (cases r)
    case (Inl e)
    with lw show ?thesis by (simp add: call_ListWatched_def)
  next
    case (Inr pg)
    obtain repos res where pg: "pg = (repos, res)" by (cases pg)
    from ok lw Inr pg have "list_all present repos" by blast
    then have tot: "\<And>xs. \<exists>ys. append_repos xs repos = Inr ys"
      using append_repos_total by blast
    show ?thesis
    proof (cases "case acc of None \<Rightarrow> make_subs (LastPage res * PerPage opts) | Some v \<Rightarrow> Inr v")
      case (Inl p)
      then have "p = MakeSliceCap"
        by (auto simp: make_subs_def split: option.splits if_splits)
      with Inl lw \<open>r = Inr pg\<close> pg show ?thesis by (simp add: call_ListWatched_def)
    next
      case (Inr xs)
      from tot obtain ys where ys: "append_repos xs repos = Inr ys" by blast
      with Inr lw \<open>r = Inr pg\<close> pg Suc.IH show ?thesis
        by (simp add: call_ListWatched_def)
    qed
  qed
qed

text \<open>
  Claim C9. The loop that builds the list from a page returns a list exactly when every
  record of the page is there with its owner, the owner's login and its name; otherwise
  it panics on a nil dereference (the accesses are unguarded, so the precondition is
  needed). When every page that the service returns is of this kind, \<open>getSubs\<close> never
  ends in a nil dereference.
\<close>

theorem getSubs_no_nil_deref:
  "(list_all present repos \<longleftrightarrow> (\<exists>ys. append_repos xs repos = Inr ys))
   \<and> (\<not> list_all present repos \<longleftrightarrow> append_repos xs repos = Inl NilDeref)
   \<and> ((\<forall>w opts rs res w'. ListWatched c w opts = (Inr (rs, res), w') \<longrightarrow> list_all present rs)
        \<longrightarrow> getSubs fuel c s \<noteq> Some (Inl NilDeref, s'))"
proof -
  have a: "list_all present repos \<longleftrightarrow> (\<exists>ys. append_repos xs repos = Inr ys)"
    by (rule append_repos_total)
  have b: "\<not> list_all present repos \<longleftrightarrow> append_repos xs repos = Inl NilDeref"
  proof (cases "append_repos xs repos")
    case (Inl p)
    with append_repos_panic[OF Inl] show ?thesis by simp
  next
    case (Inr ys)
    with a show ?thesis by simp
  qed
  have c: "getSubs fuel c s \<noteq> Some (Inl NilDeref, s')"
    if "\<forall>w opts rs res w'. ListWatched c w opts = (Inr (rs, res), w') \<longrightarrow> list_all present rs"
    using getSubs_loop_NilDeref[OF that, of fuel "\<lparr>Page = 0, PerPage = 100\<rparr>" None s s']
    by (auto simp: getSubs_def split: option.splits sum.splits prod.splits)
  from a b c show ?thesis by blast
qed

theorem getSubs_no_nil_deref_witness:
  "list_all present (fst page1)
   \<and> append_repos [] (fst page1) = Inr [zeta_tools, acme_widgets]
   \<and> append_repos [] [repo_rec ''zeta'' ''tools'', Some \<lparr>Owner = Some \<lparr>Login = Some ''acme''\<rparr>, Name = None\<rparr>]
       = Inl NilDeref
   \<and> getSubs 2 demo_client (0, []) \<noteq> Some (Inl NilDeref, (2, []))"
proof -
  have ok: "\<forall>w opts rs res w'. ListWatched demo_client w opts = (Inr (rs, res), w') \<longrightarrow> list_all present rs"
    by (auto simp: demo_client_def page1_def page2_def repo_rec_def present_def split: if_splits)
  have p: "list_all present (fst page1)"
    by (simp add: page1_def repo_rec_def present_def)
  have q: "\<not> list_all present [repo_rec ''zeta'' ''tools'', Some \<lparr>Owner = Some \<lparr>Login = Some ''acme''\<rparr>, Name = None\<rparr>]"
    by (simp add: repo_rec_def present_def)
  have a: "append_repos [] (fst page1) = Inr [zeta_tools, acme_widgets]"
    by (simp add: page1_def repo_rec_def sub_of_def zeta_tools_def acme_widgets_def)
  have b: "append_repos [] [repo_rec ''zeta'' ''tools'', Some \<lparr>Owner = Some \<lparr>Login = Some ''acme''\<rparr>, Name = None\<rparr>]
       = Inl NilDeref"
    using getSubs_no_nil_deref [where repos = "[repo_rec ''zeta'' ''tools'', Some \<lparr>Owner = Some \<lparr>Login = Some ''acme''\<rparr>, Name = None\<rparr>]"
        and xs = "[]" and c = demo_client] q
    by blast
  have c: "getSubs 2 demo_client (0, []) \<noteq> Some (Inl NilDeref, (2, []))"
    using getSubs_no_nil_deref [where c = demo_client and fuel = 2 and s = "(0, [])" and s' = "(2, [])"] ok
    by blast
  from p a b c show ?thesis by (intro conjI)
qed

subsection \<open>The bulk unwatch operation\<close>

lemma unwatch_prefix:
  assumes "deletes_ok (gh m) pre w = Some w1"
    and "DeleteRepositorySubscription (gh m) w1 (org x) (repo x) = (Some e, w2)"
  shows "unwatch m (pre @ x # post) (w, l) =
           (return_error (Errorf_unwatching x e),
            (w2, l @ map (\<lambda>y. DeleteCall (org y) (repo y) None) pre
                   @ [DeleteCall (org x) (repo x) (Some e)]))"
  using assms
proof (induction pre arbitrary: w l)
  case Nil
  then show ?case by (simp add: call_Delete_def)
next
  case (Cons y pre)
  from Cons.prems(1) obtain w' where
    d: "DeleteRepositorySubscription (gh m) w (org y) (repo y) = (None, w')"
    and r: "deletes_ok (gh m) pre w' = Some w1"
    by (auto split: prod.splits option.splits)
  from Cons.IH[OF r Cons.prems(2)] d show ?case
    by (simp add: call_Delete_def)
qed

text \<open>
  Claim C2. Let the first \<open>k - 1\<close> delete calls of a selection succeed and the \<open>k\<close>-th
  call fail. Then \<open>unwatch\<close> has made exactly these \<open>k\<close> calls, in the order of the
  selection (the first \<open>k - 1\<close> deletions went through, the \<open>k\<close>-th did not), no call is
  made for the subscriptions after the \<open>k\<close>-th, and the command it returns gives an
  error whose message names the organization and the repository of the \<open>k\<close>-th
  subscription and which wraps the cause.
\<close>

theorem unwatch_fail_fast:
  assumes "1 \<le> k" and "k \<le> length sel"
    and "deletes_ok (gh m) (take (k - 1) sel) w = Some w1"
    and "DeleteRepositorySubscription (gh m) w1 (org (sel ! (k - 1))) (repo (sel ! (k - 1)))
           = (Some e, w2)"
  shows "\<exists>er. unwatch m sel (w, []) =
           (return_error er,
            (w2, map (\<lambda>y. DeleteCall (org y) (repo y) None) (take (k - 1) sel)
                   @ [DeleteCall (org (sel ! (k - 1))) (repo (sel ! (k - 1))) (Some e)]))
         \<and> Error er = ''unwatching '' @ org (sel ! (k - 1)) @ ''/'' @ repo (sel ! (k - 1))
                        @ '': '' @ Error e
         \<and> Unwrap er = Some e"
proof -
  from assms(1,2) have lt: "k - 1 < length sel" by arith
  then have split: "sel = take (k - 1) sel @ sel ! (k - 1) # drop (Suc (k - 1)) sel"
    by (rule id_take_nth_drop)
  have "unwatch m (take (k - 1) sel @ sel ! (k - 1) # drop (Suc (k - 1)) sel) (w, []) =
           (return_error (Errorf_unwatching (sel ! (k - 1)) e),
            (w2, [] @ map (\<lambda>y. DeleteCall (org y) (repo y) None) (take (k - 1) sel)
                   @ [DeleteCall (org (sel ! (k - 1))) (repo (sel ! (k - 1))) (Some e)]))"
    by (rule unwatch_prefix[OF assms(3,4)])
  with split have "unwatch m sel (w, []) =
           (return_error (Errorf_unwatching (sel ! (k - 1)) e),
            (w2, map (\<lambda>y. DeleteCall (org y) (repo y) None) (take (k - 1) sel)
                   @ [DeleteCall (org (sel ! (k - 1))) (repo (sel ! (k - 1))) (Some e)]))"
    by simp
  then show ?thesis by (simp add: Errorf_unwatching_def)
qed

theorem unwatch_fail_fast_witness:
  "unwatch (newModel demo_client)
     [acme_gadgets, \<lparr>org = ''acme'', repo = ''locked''\<rparr>, zeta_tools] (0, []) =
     (return_error (wrapError ''unwatching acme/locked: forbidden'' (errorString ''forbidden'')),
      (2, [DeleteCall ''acme'' ''gadgets'' None,
           DeleteCall ''acme'' ''locked'' (Some (errorString ''forbidden''))]))"
proof -
  let ?sel = "[acme_gadgets, \<lparr>org = ''acme'', repo = ''locked''\<rparr>, zeta_tools]"
  have a: "(1::nat) \<le> 2" "2 \<le> length ?sel" by simp_all
  have b: "deletes_ok (gh (newModel demo_client)) (take (2 - 1) ?sel) 0 = Some 1"
    by (simp add: newModel_def demo_client_def acme_gadgets_def)
  have c: "DeleteRepositorySubscription (gh (newModel demo_client)) 1
             (org (?sel ! (2 - 1))) (repo (?sel ! (2 - 1))) = (Some (errorString ''forbidden''), 2)"
    by (simp add: newModel_def demo_client_def)
  from unwatch_fail_fast [OF a b c] obtain er where
    u: "unwatch (newModel demo_client) ?sel (0, []) =
           (return_error er,
            (2, map (\<lambda>y. DeleteCall (org y) (repo y) None) (take (2 - 1) ?sel)
                   @ [DeleteCall (org (?sel ! (2 - 1))) (repo (?sel ! (2 - 1)))
                        (Some (errorString ''forbidden''))]))"
    and e: "Error er = ''unwatching '' @ org (?sel ! (2 - 1)) @ ''/'' @ repo (?sel ! (2 - 1))
                        @ '': '' @ Error (errorString ''forbidden'')"
    and w: "Unwrap er = Some (errorString ''forbidden'')"
    by blast
  from e w have "er = wrapError ''unwatching acme/locked: forbidden'' (errorString ''forbidden'')"
    by (cases er) simp_all
  with u show ?thesis by (simp add: acme_gadgets_def)
qed

subsection \<open>Keys, fetches and the session state\<close>

lemma only_ListWatched:
  "list_all is_ListWatched es \<Longrightarrow> filter is_Delete es = [] \<and> filter (\<lambda>e. e = GetSubsCall) es = []"
proof (induction es)
  case Nil
  then show ?case by simp
next
  case (Cons e es)
  then show ?case by (cases e) simp_all
qed

lemma loadSubs_log:
  assumes "loadSubs fuel m (w, l0) = Some (r, (w', l1))"
  shows "\<exists>new. l1 = l0 @ GetSubsCall # new \<and> list_all is_ListWatched new"
proof -
  from assms obtain out where
    "getSubs fuel (gh m) (w, l0 @ [GetSubsCall]) = Some (out, (w', l1))"
    by (auto simp: loadSubs_def split: option.splits sum.splits prod.splits)
  from getSubs_log[OF this] show ?thesis by auto
qed

lemma Update_exec_no_marks:
  assumes "SelectedRows (table m) = []"
  shows "Update W m (KeyMsg ''x'') s = (Inr (m\<lparr>state := stateUnwatching\<rparr>, loadSubs_cmd), s)"
  using assms by (simp add: Update_def km_def Matches_def)

lemma Update_subsLoaded_ok:
  "\<exists>m2 c2. Update W m (subsLoadedMsg subs None) s = (Inr (m2, c2), s) \<and> state m2 = stateLoaded"
  by (simp add: Update_def table_tail_def split: prod.splits)

lemma Update_subsLoaded_err:
  "Update W m (subsLoadedMsg subs (Some e)) s = (Inr (m\<lparr>state := stateError\<rparr>, nil_cmd), s)"
  by (simp add: Update_def)

lemma cursor_run_events:
  "cursor_run c n p w = Some (es, w') \<Longrightarrow> list_all is_ListWatched es \<and> follows_cursor p es"
proof (induction n arbitrary: p w es)
  case 0
  then show ?case by simp
next
  case (Suc n)
  obtain r w1 where lw: "ListWatched c w \<lparr>Page = p, PerPage = 100\<rparr> = (r, w1)"
    by (cases "ListWatched c w \<lparr>Page = p, PerPage = 100\<rparr>")
  show ?case
  proof (cases r)
    case (Inl e)
    with Suc.prems lw show ?thesis by auto
  next
    case (Inr pg)
    obtain repos res where pg: "pg = (repos, res)" by (cases pg)
    show ?thesis
    proof (cases "NextPage res = 0")
      case True
      with Suc.prems lw Inr pg show ?thesis by auto
    next
      case False
      with Suc.prems lw Inr pg obtain fs where
        run: "cursor_run c n (NextPage res) w1 = Some (fs, w')"
        and es: "es = ListWatchedCall \<lparr>Page = p, PerPage = 100\<rparr> (Inr (repos, res)) # fs"
        by (auto split: option.splits)
      from Suc.IH[OF run] es False show ?thesis by simp
    qed
  qed
qed

lemma loadSubs_total:
  assumes "cursor_run (gh m) fuel 0 w = Some (evs, w')"
    and "list_all present (arrived evs)" and "cap_ok evs"
  shows "loadSubs fuel m (w, l) =
     Some (Inr (subsLoadedMsg (fst (fetch_result evs)) (snd (fetch_result evs))),
           (w', l @ GetSubsCall # evs))"
proof -
  from getSubs_total[OF assms, of "l @ [GetSubsCall]"]
  show ?thesis by (cases "fetch_result evs") (simp add: loadSubs_def)
qed

text \<open>
  Claim C5, as amended. Let no row be marked, and let the pagination run of the service
  end within the given number of requests, with no record and no capacity that makes the
  code panic. Then the execute key makes no call: \<open>Update\<close> leaves the world and the log
  as they are, moves the session to \<open>stateUnwatching\<close> and returns the command that
  fetches. That command returns; the log after it holds the one call of \<open>getSubs\<close> and
  the requests of its one pagination run, and no delete call. \<open>Update\<close> on its
  completion message ends in \<open>stateLoaded\<close> when the fetch got all its pages, and in
  \<open>stateError\<close> when a page request failed.
\<close>

theorem execute_without_marks:
  assumes "SelectedRows (table m) = []"
    and "cursor_run (gh m) fuel 0 w = Some (evs, w')"
    and "list_all present (arrived evs)" and "cap_ok evs"
  shows "Update W m (KeyMsg ''x'') (w, []) =
           (Inr (m\<lparr>state := stateUnwatching\<rparr>, loadSubs_cmd), (w, []))
    \<and> loadSubs fuel (m\<lparr>state := stateUnwatching\<rparr>) (w, []) =
        Some (Inr (subsLoadedMsg (fst (fetch_result evs)) (snd (fetch_result evs))),
              (w', GetSubsCall # evs))
    \<and> list_all is_ListWatched evs \<and> follows_cursor 0 evs
    \<and> filter is_Delete (GetSubsCall # evs) = []
    \<and> filter (\<lambda>e. e = GetSubsCall) (GetSubsCall # evs) = [GetSubsCall]
    \<and> (\<exists>m2 c2.
          Update W (m\<lparr>state := stateUnwatching\<rparr>)
            (subsLoadedMsg (fst (fetch_result evs)) (snd (fetch_result evs)))
            (w', GetSubsCall # evs)
            = (Inr (m2, c2), (w', GetSubsCall # evs))
          \<and> state m2 = (if snd (fetch_result evs) = None then stateLoaded else stateError))"
proof -
  let ?m1 = "m\<lparr>state := stateUnwatching\<rparr>"
  have a: "Update W m (KeyMsg ''x'') (w, []) = (Inr (?m1, loadSubs_cmd), (w, []))"
    by (rule Update_exec_no_marks[OF assms(1)])
  have run: "cursor_run (gh ?m1) fuel 0 w = Some (evs, w')" using assms(2) by simp
  have b: "loadSubs fuel ?m1 (w, []) =
        Some (Inr (subsLoadedMsg (fst (fetch_result evs)) (snd (fetch_result evs))),
              (w', GetSubsCall # evs))"
    using loadSubs_total[OF run assms(3,4), of "[]"] by simp
  from cursor_run_events[OF assms(2)] have
    c: "list_all is_ListWatched evs" and d: "follows_cursor 0 evs" by simp_all
  from only_ListWatched[OF c] have
    e: "filter is_Delete (GetSubsCall # evs) = []"
    and f: "filter (\<lambda>e. e = GetSubsCall) (GetSubsCall # evs) = [GetSubsCall]" by simp_all
  have g: "\<exists>m2 c2.
          Update W ?m1 (subsLoadedMsg (fst (fetch_result evs)) (snd (fetch_result evs)))
            (w', GetSubsCall # evs)
            = (Inr (m2, c2), (w', GetSubsCall # evs))
          \<and> state m2 = (if snd (fetch_result evs) = None then stateLoaded else stateError)"
  proof (cases "snd (fetch_result evs)")
    case None
    with Update_subsLoaded_ok[of W ?m1 "fst (fetch_result evs)" "(w', GetSubsCall # evs)"]
    show ?thesis by simp
  next
    case (Some er)
    with Update_subsLoaded_err[of W ?m1 "fst (fetch_result evs)" er "(w', GetSubsCall # evs)"]
    show ?thesis by simp
  qed
  from a b c d e f g show ?thesis by (intro conjI)
qed

theorem execute_without_marks_witness:
  "Update demo_widgets (newModel demo_client) (KeyMsg ''x'') (0, []) =
     (Inr ((newModel demo_client)\<lparr>state := stateUnwatching\<rparr>, loadSubs_cmd), (0, []))
   \<and> loadSubs 2 ((newModel demo_client)\<lparr>state := stateUnwatching\<rparr>) (0, []) =
       Some (Inr (subsLoadedMsg [acme_gadgets, acme_widgets, zeta_tools] None),
             (2, [GetSubsCall,
                  ListWatchedCall \<lparr>Page = 0, PerPage = 100\<rparr> (Inr page1),
                  ListWatchedCall \<lparr>Page = 2, PerPage = 100\<rparr> (Inr page2)]))
   \<and> (\<exists>m2 c2. Update demo_widgets ((newModel demo_client)\<lparr>state := stateUnwatching\<rparr>)
                 (subsLoadedMsg [acme_gadgets, acme_widgets, zeta_tools] None)
                 (2, [GetSubsCall,
                      ListWatchedCall \<lparr>Page = 0, PerPage = 100\<rparr> (Inr page1),
                      ListWatchedCall \<lparr>Page = 2, PerPage = 100\<rparr> (Inr page2)])
               = (Inr (m2, c2),
                  (2, [GetSubsCall,
                       ListWatchedCall \<lparr>Page = 0, PerPage = 100\<rparr> (Inr page1),
                       ListWatchedCall \<lparr>Page = 2, PerPage = 100\<rparr> (Inr page2)]))
               \<and> state m2 = stateLoaded)
   \<and> loadSubs 2 ((newModel late_failure_client)\<lparr>state := stateUnwatching\<rparr>) (0, []) =
       Some (Inr (subsLoadedMsg []
                    (Some (wrapError ''fetching page 2 of watched repos: boom''
                             (errorString ''boom'')))),
             (2, [GetSubsCall,
                  ListWatchedCall \<lparr>Page = 0, PerPage = 100\<rparr> (Inr page1),
                  ListWatchedCall \<lparr>Page = 2, PerPage = 100\<rparr> (Inl (errorString ''boom''))]))"
proof -
  let ?log = "[ListWatchedCall \<lparr>Page = 0, PerPage = 100\<rparr> (Inr page1),
               ListWatchedCall \<lparr>Page = 2, PerPage = 100\<rparr> (Inr page2)]"
  let ?late = "[ListWatchedCall \<lparr>Page = 0, PerPage = 100\<rparr> (Inr page1),
                ListWatchedCall \<lparr>Page = 2, PerPage = 100\<rparr> (Inl (errorString ''boom''))]"
  have none: "SelectedRows (table (newModel demo_client)) = []"
    by (simp add: newModel_def table_New_def SelectedRows_def)
  have run: "cursor_run (gh (newModel demo_client)) 2 0 0 = Some (?log, 2)"
    by (simp add: newModel_def demo_cursor_run)
  have none2: "SelectedRows (table (newModel late_failure_client)) = []"
    by (simp add: newModel_def table_New_def SelectedRows_def)
  have run2: "cursor_run (gh (newModel late_failure_client)) 2 0 0 = Some (?late, 2)"
    by (simp add: newModel_def late_cursor_run)
  note ok = execute_without_marks [OF none run conjunct1 [OF demo_pages_ok]
      conjunct2 [OF demo_pages_ok], of demo_widgets, unfolded demo_fetch_result fst_conv snd_conv]
  note ko = execute_without_marks [OF none2 run2 conjunct1 [OF late_pages_ok]
      conjunct2 [OF late_pages_ok], of demo_widgets, unfolded late_fetch_result fst_conv snd_conv]
  have a: "Update demo_widgets (newModel demo_client) (KeyMsg ''x'') (0, []) =
     (Inr ((newModel demo_client)\<lparr>state := stateUnwatching\<rparr>, loadSubs_cmd), (0, []))"
    using ok by blast
  have b: "loadSubs 2 ((newModel demo_client)\<lparr>state := stateUnwatching\<rparr>) (0, []) =
       Some (Inr (subsLoadedMsg [acme_gadgets, acme_widgets, zeta_tools] None),
             (2, GetSubsCall # ?log))"
    using ok by blast
  have c: "\<exists>m2 c2. Update demo_widgets ((newModel demo_client)\<lparr>state := stateUnwatching\<rparr>)
                 (subsLoadedMsg [acme_gadgets, acme_widgets, zeta_tools] None)
                 (2, GetSubsCall # ?log)
               = (Inr (m2, c2), (2, GetSubsCall # ?log))
               \<and> state m2 = stateLoaded"
    using ok by simp
  have d: "loadSubs 2 ((newModel late_failure_client)\<lparr>state := stateUnwatching\<rparr>) (0, []) =
       Some (Inr (subsLoadedMsg []
                    (Some (wrapError ''fetching page 2 of watched repos: boom''
                             (errorString ''boom'')))),
             (2, GetSubsCall # ?late))"
    using ko by blast
  from a b c d show ?thesis by (intro conjI)
qed

text \<open>
  Claim C5 as stated has the session end in the loaded state. Here no row is marked, the
  execute key makes no delete call and dispatches the one fetch, the service is down, and
  the session ends in the error state.
\<close>

theorem execute_without_marks_counterexample:
  "SelectedRows (table (newModel down_client)) = []
   \<and> Update demo_widgets (newModel down_client) (KeyMsg ''x'') (0, []) =
       (Inr ((newModel down_client)\<lparr>state := stateUnwatching\<rparr>, loadSubs_cmd), (0, []))
   \<and> loadSubs 1 ((newModel down_client)\<lparr>state := stateUnwatching\<rparr>) (0, []) =
       Some (Inr (subsLoadedMsg []
                    (Some (wrapError ''fetching page 0 of watched repos: boom''
                             (errorString ''boom'')))),
             (1, [GetSubsCall,
                  ListWatchedCall \<lparr>Page = 0, PerPage = 100\<rparr> (Inl (errorString ''boom''))]))
   \<and> Update demo_widgets ((newModel down_client)\<lparr>state := stateUnwatching\<rparr>)
        (subsLoadedMsg []
           (Some (wrapError ''fetching page 0 of watched repos: boom'' (errorString ''boom''))))
        (1, [GetSubsCall,
             ListWatchedCall \<lparr>Page = 0, PerPage = 100\<rparr> (Inl (errorString ''boom''))]) =
       (Inr ((newModel down_client)\<lparr>state := stateError\<rparr>, nil_cmd),
        (1, [GetSubsCall,
             ListWatchedCall \<lparr>Page = 0, PerPage = 100\<rparr> (Inl (errorString ''boom''))]))"
proof -
  have a: "SelectedRows (table (newModel down_client)) = []"
    by (simp add: newModel_def table_New_def SelectedRows_def)
  have b: "Update demo_widgets (newModel down_client) (KeyMsg ''x'') (0, []) =
       (Inr ((newModel down_client)\<lparr>state := stateUnwatching\<rparr>, loadSubs_cmd), (0, []))"
    by (rule Update_exec_no_marks[OF a])
  have c: "loadSubs 1 ((newModel down_client)\<lparr>state := stateUnwatching\<rparr>) (0, []) =
       Some (Inr (subsLoadedMsg []
                    (Some (wrapError ''fetching page 0 of watched repos: boom''
                             (errorString ''boom'')))),
             (1, [GetSubsCall,
                  ListWatchedCall \<lparr>Page = 0, PerPage = 100\<rparr> (Inl (errorString ''boom''))]))"
    by (simp add: loadSubs_def newModel_def getSubs_def call_ListWatched_def down_client_def
        Errorf_fetching_def fmt_d_0)
  have d: "Update demo_widgets ((newModel down_client)\<lparr>state := stateUnwatching\<rparr>)
        (subsLoadedMsg []
           (Some (wrapError ''fetching page 0 of watched repos: boom'' (errorString ''boom''))))
        (1, [GetSubsCall,
             ListWatchedCall \<lparr>Page = 0, PerPage = 100\<rparr> (Inl (errorString ''boom''))]) =
       (Inr ((newModel down_client)\<lparr>state := stateError\<rparr>, nil_cmd),
        (1, [GetSubsCall,
             ListWatchedCall \<lparr>Page = 0, PerPage = 100\<rparr> (Inl (errorString ''boom''))]))"
    by (simp add: Update_def)
  from a b c d show ?thesis by (intro conjI)
qed

text \<open>
  Claim C3, evaluated on the code. On the completion message of a failed fetch,
  \<open>Update\<close> moves the session to \<open>stateError\<close> but leaves the field \<open>err\<close> as it
  was: the error of the fetch is not recorded. The error view then shows the error that
  was there before, and nothing else; in a new session that is \<^verbatim>\<open><nil>\<close>.
\<close>

theorem fetch_error_not_recorded:
  "Update W m (subsLoadedMsg subs (Some e)) s = (Inr (m\<lparr>state := stateError\<rparr>, nil_cmd), s)
   \<and> err (m\<lparr>state := stateError\<rparr>) = err m
   \<and> View W (m\<lparr>state := stateError\<rparr>) = ''Error: '' @ fmt_v (err m) @ newline
   \<and> View W ((newModel c)\<lparr>state := stateError\<rparr>) = ''Error: <nil>'' @ newline"
  by (simp add: Update_def View_def newModel_def fmt_v_def)

text \<open>
  Claim C7, evaluated on the code. With one marked row, \<open>Update\<close> on the execute key
  makes the delete call itself, before it returns: the log after \<open>Update\<close> holds the
  call and its result, and the command that is returned only fetches (or only returns the
  error of the call).
\<close>

theorem Update_exec_deletes_in_Update:
  "Update W (m\<lparr>table := (table m)\<lparr>rows := [(row_of x)\<lparr>selected := True\<rparr>]\<rparr>\<rparr>) (KeyMsg ''x'') (w, [])
     = (Inr (m\<lparr>table := (table m)\<lparr>rows := [(row_of x)\<lparr>selected := True\<rparr>]\<rparr>, state := stateUnwatching\<rparr>,
             case fst (DeleteRepositorySubscription (gh m) w (org x) (repo x)) of
               None \<Rightarrow> loadSubs_cmd
             | Some e \<Rightarrow> return_error (Errorf_unwatching x e)),
        (snd (DeleteRepositorySubscription (gh m) w (org x) (repo x)),
         [DeleteCall (org x) (repo x) (fst (DeleteRepositorySubscription (gh m) w (org x) (repo x)))]))"
  by (cases "DeleteRepositorySubscription (gh m) w (org x) (repo x)")
     (auto simp: Update_def km_def Matches_def SelectedRows_def row_of_def NewRow_def colSub_def
        colOrg_def colRepo_def call_Delete_def split: option.splits)

lemma unwatch_all_ok:
  "deletes_ok (gh m) subs w = Some w' \<Longrightarrow>
   unwatch m subs (w, l) =
     (loadSubs_cmd, (w', l @ map (\<lambda>y. DeleteCall (org y) (repo y) None) subs))"
proof (induction subs arbitrary: w l)
  case Nil
  then show ?case by simp
next
  case (Cons y subs)
  from Cons.prems obtain w1 where
    d: "DeleteRepositorySubscription (gh m) w (org y) (repo y) = (None, w1)"
    and r: "deletes_ok (gh m) subs w1 = Some w'"
    by (auto split: prod.splits option.splits)
  from Cons.IH[OF r] d show ?case by (simp add: call_Delete_def)
qed

lemma Update_exec:
  assumes "Matches k (Exec km)" and "selected_subs (SelectedRows (table m)) = Inr subs"
  shows "Update W m (KeyMsg k) s =
     (Inr (m\<lparr>state := stateUnwatching\<rparr>, fst (unwatch (m\<lparr>state := stateUnwatching\<rparr>) subs s)),
      snd (unwatch (m\<lparr>state := stateUnwatching\<rparr>) subs s))"
  using assms by (auto simp: Update_def km_def Matches_def split: prod.splits)

text \<open>
  Claim C6, as amended. The keys are handled in the same way in every state. In the error
  state the quit key ends the session. A key that is neither quit nor execute goes to the
  table widget only: the session makes no call and dispatches no fetch for it. The
  execute key makes the delete calls for the subscriptions of the marked rows, in their
  order, up to the first call that fails, and moves the session to \<open>stateUnwatching\<close>:
  when every call succeeds (so also when no row is marked) it returns the command that
  fetches, which is a retry from the keyboard; when a call fails it returns the command
  that gives the error of that call, and no fetch.
\<close>

theorem keys_in_error_state:
  assumes "state m = stateError"
  shows "(Matches k (Quit km) \<longrightarrow> Update W m (KeyMsg k) s = (Inr (m, tea_Quit), s))
   \<and> (\<not> Matches k (Quit km) \<and> \<not> Matches k (Exec km) \<longrightarrow>
        Update W m (KeyMsg k) s =
          (Inr (m\<lparr>table := fst (table_Update W (table m) (KeyMsg k))\<rparr>,
                snd (table_Update W (table m) (KeyMsg k))), s))
   \<and> (Matches k (Exec km) \<and> selected_subs (SelectedRows (table m)) = Inr subs
        \<and> deletes_ok (gh m) subs w = Some w' \<longrightarrow>
        Update W m (KeyMsg k) (w, l) =
          (Inr (m\<lparr>state := stateUnwatching\<rparr>, loadSubs_cmd),
           (w', l @ map (\<lambda>y. DeleteCall (org y) (repo y) None) subs)))
   \<and> (Matches k (Exec km) \<and> selected_subs (SelectedRows (table m)) = Inr (pre @ x # post)
        \<and> deletes_ok (gh m) pre w = Some w1
        \<and> DeleteRepositorySubscription (gh m) w1 (org x) (repo x) = (Some e, w2) \<longrightarrow>
        Update W m (KeyMsg k) (w, l) =
          (Inr (m\<lparr>state := stateUnwatching\<rparr>,
                return_error (wrapError
                  (''unwatching '' @ org x @ ''/'' @ repo x @ '': '' @ Error e) e)),
           (w2, l @ map (\<lambda>y. DeleteCall (org y) (repo y) None) pre
                  @ [DeleteCall (org x) (repo x) (Some e)])))
   \<and> (Matches k (Exec km) \<and> SelectedRows (table m) = [] \<longrightarrow>
        Update W m (KeyMsg k) s = (Inr (m\<lparr>state := stateUnwatching\<rparr>, loadSubs_cmd), s))"
proof -
  let ?m1 = "m\<lparr>state := stateUnwatching\<rparr>"
  have a: "Matches k (Quit km) \<longrightarrow> Update W m (KeyMsg k) s = (Inr (m, tea_Quit), s)"
    by (simp add: Update_def)
  have b: "\<not> Matches k (Quit km) \<and> \<not> Matches k (Exec km) \<longrightarrow>
        Update W m (KeyMsg k) s =
          (Inr (m\<lparr>table := fst (table_Update W (table m) (KeyMsg k))\<rparr>,
                snd (table_Update W (table m) (KeyMsg k))), s)"
    by (simp add: Update_def table_tail_def split: prod.splits)
  have c: "Matches k (Exec km) \<and> selected_subs (SelectedRows (table m)) = Inr subs
        \<and> deletes_ok (gh m) subs w = Some w' \<longrightarrow>
        Update W m (KeyMsg k) (w, l) =
          (Inr (?m1, loadSubs_cmd),
           (w', l @ map (\<lambda>y. DeleteCall (org y) (repo y) None) subs))"
  proof
    assume h: "Matches k (Exec km) \<and> selected_subs (SelectedRows (table m)) = Inr subs
        \<and> deletes_ok (gh m) subs w = Some w'"
    then have "deletes_ok (gh ?m1) subs w = Some w'" by simp
    from unwatch_all_ok[OF this, of l] Update_exec[of k m subs W "(w, l)"] h
    show "Update W m (KeyMsg k) (w, l) =
          (Inr (?m1, loadSubs_cmd),
           (w', l @ map (\<lambda>y. DeleteCall (org y) (repo y) None) subs))"
      by simp
  qed
  have d: "Matches k (Exec km) \<and> selected_subs (SelectedRows (table m)) = Inr (pre @ x # post)
        \<and> deletes_ok (gh m) pre w = Some w1
        \<and> DeleteRepositorySubscription (gh m) w1 (org x) (repo x) = (Some e, w2) \<longrightarrow>
        Update W m (KeyMsg k) (w, l) =
          (Inr (?m1,
                return_error (wrapError
                  (''unwatching '' @ org x @ ''/'' @ repo x @ '': '' @ Error e) e)),
           (w2, l @ map (\<lambda>y. DeleteCall (org y) (repo y) None) pre
                  @ [DeleteCall (org x) (repo x) (Some e)]))"
  proof
    assume h: "Matches k (Exec km) \<and> selected_subs (SelectedRows (table m)) = Inr (pre @ x # post)
        \<and> deletes_ok (gh m) pre w = Some w1
        \<and> DeleteRepositorySubscription (gh m) w1 (org x) (repo x) = (Some e, w2)"
    then have p: "deletes_ok (gh ?m1) pre w = Some w1"
      and q: "DeleteRepositorySubscription (gh ?m1) w1 (org x) (repo x) = (Some e, w2)"
      by simp_all
    from unwatch_prefix[OF p q, of post l] Update_exec[of k m "pre @ x # post" W "(w, l)"] h
    show "Update W m (KeyMsg k) (w, l) =
          (Inr (?m1,
                return_error (wrapError
                  (''unwatching '' @ org x @ ''/'' @ repo x @ '': '' @ Error e) e)),
           (w2, l @ map (\<lambda>y. DeleteCall (org y) (repo y) None) pre
                  @ [DeleteCall (org x) (repo x) (Some e)]))"
      by (simp add: Errorf_unwatching_def)
  qed
  have e: "Matches k (Exec km) \<and> SelectedRows (table m) = [] \<longrightarrow>
        Update W m (KeyMsg k) s = (Inr (?m1, loadSubs_cmd), s)"
    by (auto simp: Update_def km_def Matches_def)
  from a b c d e show ?thesis by (intro conjI)
qed

lemma error_marked_selected:
  "selected_subs (SelectedRows (table error_marked)) = Inr [acme_gadgets]"
  by (simp add: error_marked_def demo_marked_def SelectedRows_def row_of_def NewRow_def
      colSub_def colOrg_def colRepo_def)

lemma error_locked_selected:
  "selected_subs (SelectedRows (table error_locked)) = Inr ([] @ acme_locked # [])"
  by (simp add: error_locked_def SelectedRows_def row_of_def NewRow_def
      colSub_def colOrg_def colRepo_def)

theorem keys_in_error_state_witness:
  "Update demo_widgets error_marked (KeyMsg ''q'') (0, []) = (Inr (error_marked, tea_Quit), (0, []))
   \<and> Update demo_widgets error_marked (KeyMsg ''x'') (0, []) =
       (Inr (error_marked\<lparr>state := stateUnwatching\<rparr>, loadSubs_cmd),
        (1, [DeleteCall ''acme'' ''gadgets'' None]))
   \<and> Update demo_widgets error_locked (KeyMsg ''x'') (0, []) =
       (Inr (error_locked\<lparr>state := stateUnwatching\<rparr>,
             return_error (wrapError ''unwatching acme/locked: forbidden''
                             (errorString ''forbidden''))),
        (1, [DeleteCall ''acme'' ''locked'' (Some (errorString ''forbidden''))]))
   \<and> Update demo_widgets ((newModel demo_client)\<lparr>state := stateError\<rparr>) (KeyMsg ''x'') (0, []) =
       (Inr ((newModel demo_client)\<lparr>state := stateUnwatching\<rparr>, loadSubs_cmd), (0, []))
   \<and> snd (Update demo_widgets error_marked (KeyMsg ''j'') (0, [])) = (0, [])"
proof -
  have st: "state error_marked = stateError" by (simp add: error_marked_def)
  have st2: "state error_locked = stateError" by (simp add: error_locked_def)
  have st3: "state ((newModel demo_client)\<lparr>state := stateError\<rparr>) = stateError" by simp
  have none: "SelectedRows (table ((newModel demo_client)\<lparr>state := stateError\<rparr>)) = []"
    by (simp add: newModel_def table_New_def SelectedRows_def)
  have q: "Matches ''q'' (Quit km)" by (simp add: Matches_def km_def)
  have x: "Matches ''x'' (Exec km)" by (simp add: Matches_def km_def)
  have j: "\<not> Matches ''j'' (Quit km) \<and> \<not> Matches ''j'' (Exec km)" by (simp add: Matches_def km_def)
  have ok: "deletes_ok (gh error_marked) [acme_gadgets] 0 = Some 1"
    by (simp add: error_marked_def demo_marked_def demo_client_def acme_gadgets_def)
  have pre: "deletes_ok (gh error_locked) [] 0 = Some 0" by simp
  have ko: "DeleteRepositorySubscription (gh error_locked) 0 (org acme_locked) (repo acme_locked)
              = (Some (errorString ''forbidden''), 1)"
    by (simp add: error_locked_def demo_client_def acme_locked_def)
  have a: "Update demo_widgets error_marked (KeyMsg ''q'') (0, []) = (Inr (error_marked, tea_Quit), (0, []))"
    using keys_in_error_state [OF st, of "''q''" demo_widgets "(0, [])"] q by blast
  have b: "Update demo_widgets error_marked (KeyMsg ''x'') (0, []) =
       (Inr (error_marked\<lparr>state := stateUnwatching\<rparr>, loadSubs_cmd),
        (1, [DeleteCall ''acme'' ''gadgets'' None]))"
    using keys_in_error_state [OF st, where k = "''x''" and W = demo_widgets
        and subs = "[acme_gadgets]" and w = 0 and w' = 1 and l = "[]"]
      x error_marked_selected ok
    by (simp add: acme_gadgets_def)
  have c: "Update demo_widgets error_locked (KeyMsg ''x'') (0, []) =
       (Inr (error_locked\<lparr>state := stateUnwatching\<rparr>,
             return_error (wrapError ''unwatching acme/locked: forbidden''
                             (errorString ''forbidden''))),
        (1, [DeleteCall ''acme'' ''locked'' (Some (errorString ''forbidden''))]))"
    using keys_in_error_state [OF st2, where k = "''x''" and W = demo_widgets
        and pre = "[]" and x = acme_locked and post = "[]" and w = 0 and ?w1.0 = 0
        and e = "errorString ''forbidden''" and ?w2.0 = 1 and l = "[]"]
      x error_locked_selected pre ko
    by (simp add: acme_locked_def)
  have d: "Update demo_widgets ((newModel demo_client)\<lparr>state := stateError\<rparr>) (KeyMsg ''x'') (0, []) =
       (Inr ((newModel demo_client)\<lparr>state := stateUnwatching\<rparr>, loadSubs_cmd), (0, []))"
    using keys_in_error_state [OF st3, of "''x''" demo_widgets "(0, [])"] x none by simp
  have e: "snd (Update demo_widgets error_marked (KeyMsg ''j'') (0, [])) = (0, [])"
    using keys_in_error_state [OF st, of "''j''" demo_widgets "(0, [])"] j by simp
  from a b c d e show ?thesis by (intro conjI)
qed

text \<open>
  Claim C6 as stated has no key trigger a fetch in the error state. Here the first fetch
  of a session fails, the session is in the error state, the execute key returns the
  fetch command, and that fetch gets the subscriptions: a retry from the keyboard.
\<close>

theorem retry_from_error_state_counterexample:
  "loadSubs 1 (newModel flaky_client) (0, []) =
     Some (Inr (subsLoadedMsg []
                  (Some (wrapError ''fetching page 0 of watched repos: boom'' (errorString ''boom'')))),
           (1, [GetSubsCall,
                ListWatchedCall \<lparr>Page = 0, PerPage = 100\<rparr> (Inl (errorString ''boom''))]))
   \<and> Update demo_widgets (newModel flaky_client)
        (subsLoadedMsg []
           (Some (wrapError ''fetching page 0 of watched repos: boom'' (errorString ''boom''))))
        (1, []) =
       (Inr ((newModel flaky_client)\<lparr>state := stateError\<rparr>, nil_cmd), (1, []))
   \<and> Update demo_widgets ((newModel flaky_client)\<lparr>state := stateError\<rparr>) (KeyMsg ''x'') (1, []) =
       (Inr ((newModel flaky_client)\<lparr>state := stateUnwatching\<rparr>, loadSubs_cmd), (1, []))
   \<and> loadSubs 2 ((newModel flaky_client)\<lparr>state := stateUnwatching\<rparr>) (1, []) =
       Some (Inr (subsLoadedMsg [acme_gadgets, acme_widgets, zeta_tools] None),
             (3, [GetSubsCall,
                  ListWatchedCall \<lparr>Page = 0, PerPage = 100\<rparr> (Inr page1),
                  ListWatchedCall \<lparr>Page = 2, PerPage = 100\<rparr> (Inr page2)]))"
proof -
  have a: "loadSubs 1 (newModel flaky_client) (0, []) =
     Some (Inr (subsLoadedMsg []
                  (Some (wrapError ''fetching page 0 of watched repos: boom'' (errorString ''boom'')))),
           (1, [GetSubsCall,
                ListWatchedCall \<lparr>Page = 0, PerPage = 100\<rparr> (Inl (errorString ''boom''))]))"
    by (simp add: loadSubs_def newModel_def getSubs_def call_ListWatched_def flaky_client_def
        Errorf_fetching_def fmt_d_0)
  have b: "Update demo_widgets (newModel flaky_client)
        (subsLoadedMsg []
           (Some (wrapError ''fetching page 0 of watched repos: boom'' (errorString ''boom''))))
        (1, []) =
       (Inr ((newModel flaky_client)\<lparr>state := stateError\<rparr>, nil_cmd), (1, []))"
    by (simp add: Update_def)
  have c: "Update demo_widgets ((newModel flaky_client)\<lparr>state := stateError\<rparr>) (KeyMsg ''x'') (1, []) =
       (Inr ((newModel flaky_client)\<lparr>state := stateUnwatching\<rparr>, loadSubs_cmd), (1, []))"
    by (simp add: Update_def km_def Matches_def newModel_def table_New_def SelectedRows_def)
  have d: "loadSubs 2 ((newModel flaky_client)\<lparr>state := stateUnwatching\<rparr>) (1, []) =
       Some (Inr (subsLoadedMsg [acme_gadgets, acme_widgets, zeta_tools] None),
             (3, [GetSubsCall,
                  ListWatchedCall \<lparr>Page = 0, PerPage = 100\<rparr> (Inr page1),
                  ListWatchedCall \<lparr>Page = 2, PerPage = 100\<rparr> (Inr page2)]))"
    by (simp add: loadSubs_def newModel_def getSubs_def numeral_2_eq_2 call_ListWatched_def
      flaky_client_def demo_client_def page1_def
      page2_def make_subs_def repo_rec_def sub_of_def sort_Slice_def sub_less_def
      acme_gadgets_def acme_widgets_def zeta_tools_def)
  from a b c d show ?thesis by (intro conjI)
qed

subsection \<open>Rows and subscriptions\<close>

lemma cols_distinct: "colSub \<noteq> colOrg" "colSub \<noteq> colRepo" "colOrg \<noteq> colRepo"
  by (simp_all add: colSub_def colOrg_def colRepo_def)

lemma row_ok_row_of: "row_ok (row_of x)"
  using cols_distinct by (simp add: row_ok_def row_of_def NewRow_def)

lemma row_ok_Data: "Data r = Data r' \<Longrightarrow> row_ok r = row_ok r'"
  by (simp add: row_ok_def split: option.splits cell.splits)

lemma rows_ok_Data:
  "map Data rs' = map Data rs \<Longrightarrow> list_all row_ok rs \<Longrightarrow> list_all row_ok rs'"
proof (induction rs' arbitrary: rs)
  case Nil
  then show ?case by simp
next
  case (Cons r rs')
  then obtain q qs where "rs = q # qs" "Data r = Data q" "map Data rs' = map Data qs"
    by (cases rs) auto
  with Cons show ?case using row_ok_Data[of r q] by auto
qed

lemma row_ok_displayed:
  "row_ok r \<Longrightarrow> Data r colSub = Some (SubCell (displayed r))"
  by (auto simp: row_ok_def displayed_def shown_def split: option.splits cell.splits)

lemma selected_subs_ok:
  "list_all row_ok rs \<Longrightarrow> selected_subs rs = Inr (map displayed rs)"
  by (induction rs) (auto simp: row_ok_displayed)

lemma table_tail_rows:
  assumes "keeps_data W" and "list_all row_ok (rows (table m))"
    and "table_tail W m msg s = (Inr (m', cm), s')"
  shows "list_all row_ok (rows (table m'))"
proof -
  from assms(3) have "table m' = fst (table_Update W (table m) msg)"
    by (auto simp: table_tail_def split: prod.splits)
  with assms(1) have "map Data (rows (table m')) = map Data (rows (table m))"
    by (simp add: keeps_data_def)
  from rows_ok_Data[OF this assms(2)] show ?thesis .
qed

lemma Update_rows_ok:
  assumes W: "keeps_data W" and inv: "list_all row_ok (rows (table m))"
    and up: "Update W m msg s = (Inr (m', cm), s')"
  shows "list_all row_ok (rows (table m'))"
proof (cases msg)
  case (error_msg e)
  with up inv show ?thesis by (auto simp: Update_def)
next
  case (KeyMsg k)
  show ?thesis
  proof (cases "Matches k (Quit km)")
    case True
    with up inv KeyMsg show ?thesis by (auto simp: Update_def)
  next
    case nq: False
    show ?thesis
    proof (cases "Matches k (Exec km)")
      case True
      with up inv KeyMsg nq show ?thesis
        by (auto simp: Update_def split: sum.splits prod.splits)
    next
      case False
      with up KeyMsg nq have "table_tail W m msg s = (Inr (m', cm), s')"
        by (simp add: Update_def)
      from table_tail_rows[OF W inv this] show ?thesis .
    qed
  qed
next
  case (WindowSizeMsg wd ht)
  let ?m = "m\<lparr>table := WithPageSize (WithTargetWidth (table m) wd)
                (ht - 6 - Height W (ShortHelpView W (ShortHelp km)))\<rparr>"
  from up WindowSizeMsg have t: "table_tail W ?m msg s = (Inr (m', cm), s')"
    by (simp add: Update_def Let_def)
  have "list_all row_ok (rows (table ?m))"
    using inv by (simp add: WithPageSize_def WithTargetWidth_def)
  from table_tail_rows[OF W this t] show ?thesis .
next
  case TickMsg
  with up inv show ?thesis by (auto simp: Update_def split: prod.splits)
next
  case (subsLoadedMsg subs e)
  show ?thesis
  proof (cases e)
    case (Some x)
    with up inv subsLoadedMsg show ?thesis by (auto simp: Update_def)
  next
    case None
    let ?m = "m\<lparr>table := Focused (WithRows (table m) (map row_of subs)) True, state := stateLoaded\<rparr>"
    from up subsLoadedMsg None have t: "table_tail W ?m msg s = (Inr (m', cm), s')"
      by (simp add: Update_def)
    have "list_all row_ok (rows (table ?m))"
      by (simp add: Focused_def WithRows_def list_all_iff row_ok_row_of)
    from table_tail_rows[OF W this t] show ?thesis .
  qed
next
  case (library_msg n)
  with up have "table_tail W m msg s = (Inr (m', cm), s')" by (simp add: Update_def)
  from table_tail_rows[OF W inv this] show ?thesis .
qed

lemma reachable_rows_ok:
  assumes "keeps_data W" and "reachable W c m"
  shows "list_all row_ok (rows (table m))"
  using assms(2)
proof (induction rule: reachable.induct)
  case init
  then show ?case by (simp add: newModel_def table_New_def)
next
  case (step m msg s m' cm s')
  from Update_rows_ok[OF assms(1) step.IH step.hyps(2)] show ?case .
qed

lemma filter_rows_ok: "list_all row_ok rs \<Longrightarrow> list_all row_ok (filter selected rs)"
  by (simp add: list_all_iff)

lemma map_Data_toggle_mark: "map Data (toggle_mark n rs) = map Data rs"
  by (induction n rs rule: toggle_mark.induct) simp_all

lemma keeps_data_demo: "keeps_data demo_widgets"
  by (auto simp: keeps_data_def demo_widgets_def demo_table_Update_def map_Data_toggle_mark
      split: Msg.splits)

lemma demo_loaded_step:
  "Update demo_widgets (newModel demo_client) (subsLoadedMsg [acme_gadgets, acme_widgets] None) (0, [])
     = (Inr (demo_loaded, nil_cmd), (0::nat, []))"
  by (simp add: Update_def table_tail_def demo_widgets_def demo_table_Update_def newModel_def
      table_New_def WithRows_def Focused_def demo_loaded_def)

lemma demo_marked_step:
  "Update demo_widgets demo_loaded (KeyMsg '' '') (0, []) = (Inr (demo_marked, nil_cmd), (0::nat, []))"
  by (simp add: Update_def table_tail_def demo_widgets_def demo_table_Update_def km_def
      Matches_def demo_loaded_def demo_marked_def row_of_def NewRow_def)

lemma reachable_demo_marked: "reachable demo_widgets demo_client demo_marked"
proof -
  have "reachable demo_widgets demo_client (newModel demo_client)" by (rule reachable.init)
  from reachable.step[OF this demo_loaded_step] have "reachable demo_widgets demo_client demo_loaded" .
  from reachable.step[OF this demo_marked_step] show ?thesis .
qed

text \<open>
  Claim C10. Let the table widget leave the data of the rows as they are. Then in every
  reachable session each row of the table holds under \<open>colSub\<close> the subscription whose
  organization and repository are the cells the row shows. So the loop of the execute key
  never panics: it yields, for the marked rows in order, the pairs that these rows show,
  and \<open>Update\<close> runs \<open>unwatch\<close> on exactly these pairs.
\<close>

theorem rows_carry_their_subscription:
  assumes "keeps_data W" and "reachable W c m"
  shows "list_all row_ok (rows (table m))
    \<and> selected_subs (SelectedRows (table m)) = Inr (map displayed (SelectedRows (table m)))
    \<and> Update W m (KeyMsg ''x'') s =
        (Inr (m\<lparr>state := stateUnwatching\<rparr>,
              fst (unwatch (m\<lparr>state := stateUnwatching\<rparr>) (map displayed (SelectedRows (table m))) s)),
         snd (unwatch (m\<lparr>state := stateUnwatching\<rparr>) (map displayed (SelectedRows (table m))) s))"
proof -
  have inv: "list_all row_ok (rows (table m))"
    by (rule reachable_rows_ok[OF assms])
  then have "list_all row_ok (SelectedRows (table m))"
    by (simp add: SelectedRows_def filter_rows_ok)
  then have sel: "selected_subs (SelectedRows (table m)) = Inr (map displayed (SelectedRows (table m)))"
    by (rule selected_subs_ok)
  have "Update W m (KeyMsg ''x'') s =
        (Inr (m\<lparr>state := stateUnwatching\<rparr>,
              fst (unwatch (m\<lparr>state := stateUnwatching\<rparr>) (map displayed (SelectedRows (table m))) s)),
         snd (unwatch (m\<lparr>state := stateUnwatching\<rparr>) (map displayed (SelectedRows (table m))) s))"
    using sel by (simp add: Update_def km_def Matches_def split: prod.splits)
  with inv sel show ?thesis by (intro conjI)
qed

theorem rows_carry_their_subscription_witness:
  "selected_subs (SelectedRows (table demo_marked)) = Inr [acme_gadgets]
   \<and> Update demo_widgets demo_marked (KeyMsg ''x'') (0, []) =
       (Inr (demo_marked\<lparr>state := stateUnwatching\<rparr>, loadSubs_cmd),
        (1, [DeleteCall ''acme'' ''gadgets'' None]))"
proof -
  have d: "map displayed (SelectedRows (table demo_marked)) = [acme_gadgets]"
    using cols_distinct
    by (simp add: SelectedRows_def demo_marked_def row_of_def NewRow_def displayed_def shown_def
        acme_gadgets_def)
  have u: "unwatch (demo_marked\<lparr>state := stateUnwatching\<rparr>) [acme_gadgets] (0, [])
            = (loadSubs_cmd, (1, [DeleteCall ''acme'' ''gadgets'' None]))"
    by (simp add: demo_marked_def demo_client_def call_Delete_def acme_gadgets_def)
  from rows_carry_their_subscription [OF keeps_data_demo reachable_demo_marked, of "(0, [])"]
  show ?thesis unfolding d u by simp
qed

subsection \<open>Missing credential\<close>

text \<open>
  Claim C8. When the variable \<^verbatim>\<open>GITHUB_TOKEN\<close> is not set, the process writes the
  message \<^verbatim>\<open>must set GITHUB_TOKEN\<close> to the error stream and exits with code 1. Neither
  the client is built nor the program started, whatever they are: the state of the
  terminal and of the remote service is the one before.
\<close>

theorem missing_token_is_fatal:
  assumes "env ''GITHUB_TOKEN'' = None"
  shows "main env NewClient Start p =
           (\<lparr>stderr = ''must set GITHUB_TOKEN'' @ newline, code = 1\<rparr>, p)"
  using assms by (simp add: main_def realMain_def Getenv_def fmt_v_def)

theorem missing_token_is_fatal_witness:
  "main Map.empty (\<lambda>token. demo_client) (\<lambda>m p. (None, Suc p)) (0::nat) =
     (\<lparr>stderr = ''must set GITHUB_TOKEN'' @ newline, code = 1\<rparr>, 0)"
  using missing_token_is_fatal [of Map.empty "\<lambda>token. demo_client" "\<lambda>m p. (None, Suc p)" "0::nat"]
  by simp

end
